theory Spec2Isabelle
  imports Complex_Main "HOL-Library.AList"
begin

section \<open>JavaScript values\<close>

text \<open>
  The values that \<^verbatim>\<open>application.js\<close> inspects with \<^verbatim>\<open>typeof\<close>, \<^verbatim>\<open>instanceof\<close> and
  truthiness tests. Objects are references: an element, a texture or any other object is
  its address. Finite numbers are rationals, \<^verbatim>\<open>NaN\<close> is a value of its own.
\<close>

datatype jsval =
    JUndefined
  | JNull
  | JBool bool
  | JNum rat
  | JNaN
  | JStr string
  | JImage nat
  | JCanvas nat
  | JVideo nat
  | JTexture nat
  | JArray "jsval list"
  | JObject nat

fun truthy :: "jsval \<Rightarrow> bool" where
  "truthy JUndefined = False"
| "truthy JNull = False"
| "truthy (JBool b) = b"
| "truthy (JNum n) = (n \<noteq> 0)"
| "truthy JNaN = False"
| "truthy (JStr s) = (s \<noteq> [])"
| "truthy _ = True"

text \<open>\<^verbatim>\<open>typeof v === 'string'\<close>\<close>

fun isString :: "jsval \<Rightarrow> bool" where
  "isString (JStr s) = True"
| "isString _ = False"

text \<open>
  \<^verbatim>\<open>isImageLikeElement\<close>: an \<^verbatim>\<open>Image\<close>, an \<^verbatim>\<open>HTMLCanvasElement\<close> or an
  \<^verbatim>\<open>HTMLVideoElement\<close>.
\<close>

fun isImageLikeElement :: "jsval \<Rightarrow> bool" where
  "isImageLikeElement (JImage a) = True"
| "isImageLikeElement (JCanvas a) = True"
| "isImageLikeElement (JVideo a) = True"
| "isImageLikeElement _ = False"

section \<open>Scene data read by the usage tracker\<close>

type_synonym tid = nat
type_synonym gid = nat

record uniform =
  utype :: string
  uvalue :: jsval

record material =
  uniforms :: "(string \<times> uniform) list"
  depthMask :: bool
  transparent :: bool

record renderable =
  geometry :: gid
  material :: material

record light =
  cubemap :: "tid option"

record scene =
  opaqueList :: "renderable list"
  transparentList :: "renderable list"
  lights :: "light list"

section \<open>Mark and sweep\<close>

text \<open>
  The property \<^verbatim>\<open>__used__\<close> lives on the resource object; it is \<^verbatim>\<open>undefined\<close>
  (\<open>None\<close>) until the tracker first writes it. A tracked list is the JavaScript array
  together with the counters of the objects it may hold. Geometries and textures are
  objects of different classes, so each kind has a store of its own.
\<close>

type_synonym 'r used = "'r \<Rightarrow> nat option"

text \<open>\<^verbatim>\<open>resource.__used__ || 0\<close>\<close>

fun orZero :: "nat option \<Rightarrow> nat" where
  "orZero None = 0"
| "orZero (Some n) = n"

text \<open>\<^verbatim>\<open>!resource.__used__\<close>\<close>

fun unused :: "nat option \<Rightarrow> bool" where
  "unused None = True"
| "unused (Some n) = (n = 0)"

fun markUsed :: "'r list \<Rightarrow> 'r used \<Rightarrow> 'r used" where
  "markUsed [] used = used"
| "markUsed (r # resourceList) used = markUsed resourceList (used(r \<mapsto> 0))"

text \<open>
  \<^verbatim>\<open>checkAndDispose\<close> returns the \<^verbatim>\<open>dispose\<close> calls it makes, in order. The renderer
  it hands to each call plays no part in which calls are made. \<^verbatim>\<open>dispose\<close> belongs to
  the resource classes; it is taken to return normally and to leave \<^verbatim>\<open>__used__\<close> alone.
\<close>

fun checkAndDispose :: "'r list \<Rightarrow> 'r used \<Rightarrow> 'r list" where
  "checkAndDispose [] used = []"
| "checkAndDispose (r # resourceList) used =
     (if unused (used r) then r # checkAndDispose resourceList used
      else checkAndDispose resourceList used)"

fun updateUsed :: "'r \<Rightarrow> 'r list \<times> 'r used \<Rightarrow> 'r list \<times> 'r used" where
  "updateUsed resource (list, used) =
     (list @ [resource], used(resource \<mapsto> orZero (used resource) + 1))"

text \<open>The loop over an array-valued uniform: only its texture elements are recorded.\<close>

fun trackArray :: "jsval list \<Rightarrow> tid list \<times> tid used \<Rightarrow> tid list \<times> tid used" where
  "trackArray [] tt = tt"
| "trackArray (JTexture t # val) tt = trackArray val (updateUsed t tt)"
| "trackArray (v # val) tt = trackArray val tt"

text \<open>The loop \<^verbatim>\<open>for (var name in material.uniforms)\<close>.\<close>

fun trackUniforms :: "(string \<times> uniform) list \<Rightarrow> tid list \<times> tid used \<Rightarrow> tid list \<times> tid used" where
  "trackUniforms [] tt = tt"
| "trackUniforms ((name, u) # us) tt =
     trackUniforms us
       (case uvalue u of
          JTexture t \<Rightarrow> updateUsed t tt
        | JArray val \<Rightarrow> trackArray val tt
        | _ \<Rightarrow> tt)"

fun trackQueue ::
  "renderable list \<Rightarrow> (tid list \<times> tid used) \<times> (gid list \<times> gid used) \<Rightarrow>
     (tid list \<times> tid used) \<times> (gid list \<times> gid used)" where
  "trackQueue [] c = c"
| "trackQueue (rd # queue) (tt, gt) =
     trackQueue queue
       (trackUniforms (uniforms (material rd)) tt, updateUsed (geometry rd) gt)"

fun trackLights :: "light list \<Rightarrow> tid list \<times> tid used \<Rightarrow> tid list \<times> tid used" where
  "trackLights [] tt = tt"
| "trackLights (l # ls) tt =
     trackLights ls (case cubemap l of Some c \<Rightarrow> updateUsed c tt | None \<Rightarrow> tt)"

definition collectResources ::
  "scene \<Rightarrow> (tid list \<times> tid used) \<times> (gid list \<times> gid used) \<Rightarrow>
     (tid list \<times> tid used) \<times> (gid list \<times> gid used)" where
  "collectResources sc c =
     (case trackQueue (transparentList sc) (trackQueue (opaqueList sc) c) of
        (tt, gt) \<Rightarrow> (trackLights (lights sc) tt, gt))"


section \<open>The application and its frame handler\<close>

datatype error = Error string

text \<open>
  The container argument: a selector string, an element, or nothing. The document's
  \<^verbatim>\<open>querySelector\<close> is a parameter of the constructor.
\<close>

datatype dom_arg = DomSelector string | DomElement nat | DomMissing

text \<open>
  Of the namespace object only the callbacks matter here; a callback is the address of a
  function, code of the application's user. What \<^verbatim>\<open>init\<close> and \<^verbatim>\<open>loop\<close> do to the
  scene shows in the scenes the ticks see.
\<close>

record appNS =
  init :: "nat option"
  loop :: "nat option"

datatype listener = FrameHandler

text \<open>
  The variables the constructor's closures share. \<^verbatim>\<open>gTexturesList\<close> and
  \<^verbatim>\<open>gGeometriesList\<close> start as \<^verbatim>\<open>{}\<close>, whose \<^verbatim>\<open>length\<close> is undefined, so the loops
  over them do nothing until the first frame replaces them by arrays: they start empty.
\<close>

record app =
  frameListeners :: "listener list"
  gTexturesList :: "tid list"
  gGeometriesList :: "gid list"

text \<open>
  Modelled from the spec: the texture class is not part of this file; a texture has a
  load state, pending, ready or error, which its loader alone changes.
\<close>

datatype load_state = LoadPending | LoadReady | LoadError

text \<open>
  The resource objects: their \<^verbatim>\<open>__used__\<close> properties and the load state of each
  texture.
\<close>

record heap =
  texUsed :: "tid used"
  geoUsed :: "gid used"
  texLoad :: "tid \<Rightarrow> load_state"

datatype resource = Texture tid | Geometry gid

definition App3D :: "(string \<Rightarrow> nat option) \<Rightarrow> dom_arg \<Rightarrow> appNS option \<Rightarrow> error + app" where
  "App3D querySelector container appNS =
     (let ns = (case appNS of None \<Rightarrow> \<lparr>init = None, loop = None\<rparr> | Some ns \<Rightarrow> ns);
          dom' = (case container of
                    DomSelector s \<Rightarrow> querySelector s
                  | DomElement e \<Rightarrow> Some e
                  | DomMissing \<Rightarrow> None)
      in if dom' = None then Inl (Error ''Invalid dom'')
         else Inr \<lparr>frameListeners = (if loop ns \<noteq> None then [FrameHandler] else []),
                   gTexturesList = [], gGeometriesList = []\<rparr>)"

text \<open>
  One run of the handler registered for \<^verbatim>\<open>'frame'\<close>, on the scene as the loop callback
  and the render call leave it, both taken to return normally. It returns the
  \<^verbatim>\<open>dispose\<close> calls of the tick, textures first.
\<close>

definition frameHandler :: "scene \<Rightarrow> app \<times> heap \<Rightarrow> (app \<times> heap) \<times> resource list" where
  "frameHandler sc = (\<lambda>(a, h).
     (case collectResources sc
             (([], markUsed (gTexturesList a) (texUsed h)),
              ([], markUsed (gGeometriesList a) (geoUsed h))) of
        ((newTexturesList, tu), (newGeometriesList, gu)) \<Rightarrow>
          ((a\<lparr>gTexturesList := newTexturesList, gGeometriesList := newGeometriesList\<rparr>,
            h\<lparr>texUsed := tu, geoUsed := gu\<rparr>),
           map Texture (checkAndDispose (gTexturesList a) tu)
             @ map Geometry (checkAndDispose (gGeometriesList a) gu))))"

text \<open>The timeline emits \<^verbatim>\<open>'frame'\<close>: every registered listener runs.\<close>

fun emit :: "listener list \<Rightarrow> scene \<Rightarrow> app \<times> heap \<Rightarrow> (app \<times> heap) \<times> resource list" where
  "emit [] sc s = (s, [])"
| "emit (FrameHandler # ls) sc s =
     (case frameHandler sc s of (s', d) \<Rightarrow>
        (case emit ls sc s' of (s'', d') \<Rightarrow> (s'', d @ d')))"

definition tick :: "scene \<Rightarrow> app \<times> heap \<Rightarrow> (app \<times> heap) \<times> resource list" where
  "tick sc s = emit (frameListeners (fst s)) sc s"

text \<open>
  A run of the application: one scene per tick. The result lists, tick by tick, the
  \<^verbatim>\<open>dispose\<close> calls made.
\<close>

fun runFrames :: "scene list \<Rightarrow> app \<times> heap \<Rightarrow> (app \<times> heap) \<times> resource list list" where
  "runFrames [] s = (s, [])"
| "runFrames (sc # scs) s =
     (case tick sc s of (s', d) \<Rightarrow>
        (case runFrames scs s' of (s'', ds) \<Rightarrow> (s'', d # ds)))"

definition disposals :: "scene list \<Rightarrow> app \<times> heap \<Rightarrow> resource list list" where
  "disposals scs s = snd (runFrames scs s)"

section \<open>What a traversal visits\<close>

text \<open>The references a traversal meets, in its order, one entry per encounter.\<close>

fun arrayTextures :: "jsval list \<Rightarrow> tid list" where
  "arrayTextures [] = []"
| "arrayTextures (JTexture t # val) = t # arrayTextures val"
| "arrayTextures (v # val) = arrayTextures val"

fun valueTextures :: "jsval \<Rightarrow> tid list" where
  "valueTextures (JTexture t) = [t]"
| "valueTextures (JArray val) = arrayTextures val"
| "valueTextures v = []"

definition materialTextures :: "material \<Rightarrow> tid list" where
  "materialTextures m = concat (map (\<lambda>(name, u). valueTextures (uvalue u)) (uniforms m))"

definition queueTextures :: "renderable list \<Rightarrow> tid list" where
  "queueTextures queue = concat (map (\<lambda>rd. materialTextures (material rd)) queue)"

definition lightTextures :: "light list \<Rightarrow> tid list" where
  "lightTextures ls = concat (map (\<lambda>l. case cubemap l of Some c \<Rightarrow> [c] | None \<Rightarrow> []) ls)"

definition textureRefs :: "scene \<Rightarrow> tid list" where
  "textureRefs sc =
     queueTextures (opaqueList sc) @ queueTextures (transparentList sc) @ lightTextures (lights sc)"

definition geometryRefs :: "scene \<Rightarrow> gid list" where
  "geometryRefs sc = map geometry (opaqueList sc) @ map geometry (transparentList sc)"

definition refs :: "scene \<Rightarrow> resource list" where
  "refs sc = map Texture (textureRefs sc) @ map Geometry (geometryRefs sc)"

text \<open>
  Reachability as the claims word it: a geometry of a renderable in a queue; a texture
  that is a uniform's value, an element of an array-valued uniform, or a light's cubemap.
\<close>

definition textureOf :: "renderable \<Rightarrow> tid \<Rightarrow> bool" where
  "textureOf rd t =
     list_ex (\<lambda>(name, u). uvalue u = JTexture t
                \<or> (case uvalue u of JArray val \<Rightarrow> list_ex (\<lambda>v. v = JTexture t) val | _ \<Rightarrow> False))
       (uniforms (material rd))"

fun reachable :: "scene \<Rightarrow> resource \<Rightarrow> bool" where
  "reachable sc (Geometry g) =
     list_ex (\<lambda>rd. geometry rd = g) (opaqueList sc @ transparentList sc)"
| "reachable sc (Texture t) =
     (list_ex (\<lambda>rd. textureOf rd t) (opaqueList sc @ transparentList sc)
      \<or> list_ex (\<lambda>l. cubemap l = Some t) (lights sc))"

section \<open>Promises and textures\<close>

text \<open>
  A promise is pending, fulfilled with a value, or rejected; \<^verbatim>\<open>reject()\<close> is only ever
  called without a reason here. Only the first call of \<^verbatim>\<open>resolve\<close> or \<^verbatim>\<open>reject\<close>
  settles a promise. No value passed to \<^verbatim>\<open>resolve\<close> in this file is a thenable.
\<close>

datatype 'a promise = Pending | Fulfilled 'a | Rejected

fun resolve :: "'a \<Rightarrow> 'a promise \<Rightarrow> 'a promise" where
  "resolve v Pending = Fulfilled v"
| "resolve v p = p"

fun reject :: "'a promise \<Rightarrow> 'a promise" where
  "reject Pending = Rejected"
| "reject p = p"

text \<open>
  Modelled from the spec: the class \<^verbatim>\<open>Texture2D\<close> is not part of this file. A texture
  object keeps the options it was built from, the image attached to it, its
  \<^verbatim>\<open>dynamic\<close> flag and the URL whose load was started, if any.
\<close>

record texture2D =
  topts :: jsval
  image_src :: jsval
  dynamic :: bool
  loading :: "string option"

text \<open>
  What the file takes from the rest of the library: the constructor of \<^verbatim>\<open>Texture2D\<close>,
  the method \<^verbatim>\<open>isRenderable\<close> of a texture, and the material built for a shader name
  by \<^verbatim>\<open>new Material({shader: shaderLibrary.get(name)})\<close>.
\<close>

record env =
  newTexture2D :: "jsval \<Rightarrow> texture2D"
  isRenderable :: "texture2D \<Rightarrow> bool"
  newMaterial :: "jsval \<Rightarrow> material"

text \<open>Modelled from the spec: \<^verbatim>\<open>texture.load(url)\<close> starts an asynchronous fetch.\<close>

definition load :: "string \<Rightarrow> texture2D \<Rightarrow> texture2D" where
  "load url tex = tex\<lparr>loading := Some url\<rparr>"

fun isVideo :: "jsval \<Rightarrow> bool" where
  "isVideo (JVideo a) = True"
| "isVideo _ = False"

text \<open>
  Texture objects live in a store; \<^verbatim>\<open>new\<close> appends an object, and the object's address
  is its index.
\<close>

definition loadTextureSync :: "env \<Rightarrow> jsval \<Rightarrow> jsval \<Rightarrow> texture2D list \<Rightarrow> tid \<times> texture2D list" where
  "loadTextureSync env urlOrImg opts store =
     (let tex = newTexture2D env opts
      in (length store,
          store @ [case urlOrImg of
                     JStr url \<Rightarrow> load url tex
                   | _ \<Rightarrow> if isImageLikeElement urlOrImg
                          then tex\<lparr>image_src := urlOrImg, dynamic := isVideo urlOrImg\<rparr>
                          else tex]))"

text \<open>
  The promise \<^verbatim>\<open>loadTexture\<close> returns, with the texture its callbacks close over;
  \<open>listening\<close> says that the callbacks were registered on the texture.
\<close>

record textureTask =
  texture :: tid
  promise :: "tid promise"
  listening :: bool

definition loadTexture :: "env \<Rightarrow> jsval \<Rightarrow> jsval \<Rightarrow> texture2D list \<Rightarrow> textureTask \<times> texture2D list" where
  "loadTexture env urlOrImg opts store =
     (case loadTextureSync env urlOrImg opts store of
        (tex, store') \<Rightarrow>
          (if \<not> isRenderable env (store' ! tex)
           then \<lparr>texture = tex, promise = Pending, listening = True\<rparr>
           else \<lparr>texture = tex, promise = resolve tex Pending, listening = False\<rparr>,
           store'))"

text \<open>A texture's loader reports success or failure of the texture at an address.\<close>

datatype texEvent = TexSuccess tid | TexError tid

fun eventTexture :: "texEvent \<Rightarrow> tid" where
  "eventTexture (TexSuccess t) = t"
| "eventTexture (TexError t) = t"

text \<open>The callbacks \<^verbatim>\<open>loadTexture\<close> registered with \<^verbatim>\<open>success\<close> and \<^verbatim>\<open>error\<close>.\<close>

fun onTexEvent :: "texEvent \<Rightarrow> textureTask \<Rightarrow> textureTask" where
  "onTexEvent (TexSuccess t) task =
     (if listening task \<and> t = texture task
      then task\<lparr>promise := resolve (texture task) (promise task)\<rparr> else task)"
| "onTexEvent (TexError t) task =
     (if listening task \<and> t = texture task
      then task\<lparr>promise := reject (promise task)\<rparr> else task)"

definition firstEvent :: "tid \<Rightarrow> texEvent list \<Rightarrow> texEvent option" where
  "firstEvent t evs = find (\<lambda>e. eventTexture e = t) evs"

section \<open>Materials\<close>

text \<open>
  A configuration object is its properties in enumeration order. Reading a missing
  property gives \<^verbatim>\<open>undefined\<close>; an assignment replaces the value in place or adds the
  property at the end (\<^const>\<open>AList.update\<close>).
\<close>

definition getProp :: "(string \<times> jsval) list \<Rightarrow> string \<Rightarrow> jsval" where
  "getProp obj key = (case map_of obj key of None \<Rightarrow> JUndefined | Some v \<Rightarrow> v)"

text \<open>
  Modelled from the spec: \<^verbatim>\<open>Material.setUniform\<close> is not part of this file; it assigns
  the value of the named uniform when the material declares it.
\<close>

definition setUniform :: "string \<Rightarrow> jsval \<Rightarrow> material \<Rightarrow> material" where
  "setUniform key val m =
     m\<lparr>uniforms := map (\<lambda>(name, u). if name = key then (name, u\<lparr>uvalue := val\<rparr>) else (name, u))
                      (uniforms m)\<rparr>"

text \<open>
  One \<^verbatim>\<open>loadTexture(val).then(makeTextureSetter(key))\<close>: the task, the key the setter
  closes over, and whether the setter has run.
\<close>

record job =
  jkey :: string
  jtask :: textureTask
  reacted :: bool

text \<open>The loop \<^verbatim>\<open>for (var key in matConfig)\<close>.\<close>

fun configure ::
  "env \<Rightarrow> (string \<times> jsval) list \<Rightarrow> material \<times> job list \<times> texture2D list \<Rightarrow>
     material \<times> job list \<times> texture2D list" where
  "configure env [] s = s"
| "configure env ((key, val) # matConfig) (m, jobs, store) =
     (case map_of (uniforms m) key of
        None \<Rightarrow> configure env matConfig (m, jobs, store)
      | Some u \<Rightarrow>
          if utype u = ''t'' \<or> isImageLikeElement val
          then (case loadTexture env val JUndefined store of
                  (task, store') \<Rightarrow>
                    configure env matConfig
                      (m, jobs @ [\<lparr>jkey = key, jtask = task, reacted = False\<rparr>], store'))
          else configure env matConfig (setUniform key val m, jobs, store))"

text \<open>
  The material object and the setters waiting on it. \<^verbatim>\<open>createMaterial\<close> returns the
  object as it is when the call ends, the configuration object as the call leaves it, and
  the store.
\<close>

record materialState =
  mat :: material
  jobs :: "job list"

definition createMaterial ::
  "env \<Rightarrow> (string \<times> jsval) list option \<Rightarrow> texture2D list \<Rightarrow>
     materialState \<times> (string \<times> jsval) list \<times> texture2D list" where
  "createMaterial env matConfig store =
     (let cfg = (case matConfig of None \<Rightarrow> [] | Some c \<Rightarrow> c);
          cfg1 = AList.update ''shader''
                   (if truthy (getProp cfg ''shader'') then getProp cfg ''shader''
                    else JStr ''clay.standard'') cfg
      in case configure env cfg1 (newMaterial env (getProp cfg1 ''shader''), [], store) of
           (m, js, store') \<Rightarrow>
             (\<lparr>mat = m, jobs = js\<rparr>,
              if truthy (getProp cfg1 ''transparent'')
              then AList.update ''transparent'' (JBool True)
                     (AList.update ''depthMask'' (JBool False) cfg1)
              else cfg1,
              store'))"

text \<open>
  The promise jobs: a setter runs once, after the call that created it has ended, when
  its promise is fulfilled. A rejected promise has no handler: nothing runs.
\<close>

fun react :: "job list \<Rightarrow> material \<Rightarrow> material \<times> job list" where
  "react [] m = (m, [])"
| "react (j # js) m =
     (case (reacted j, promise (jtask j)) of
        (False, Fulfilled t) \<Rightarrow>
          (case react js (setUniform (jkey j) (JTexture t) m) of
             (m', js') \<Rightarrow> (m', j\<lparr>reacted := True\<rparr> # js'))
      | _ \<Rightarrow> (case react js m of (m', js') \<Rightarrow> (m', j # js')))"

definition microtasks :: "materialState \<Rightarrow> materialState" where
  "microtasks st = (case react (jobs st) (mat st) of (m, js) \<Rightarrow> \<lparr>mat = m, jobs = js\<rparr>)"

definition materialEvent :: "texEvent \<Rightarrow> materialState \<Rightarrow> materialState" where
  "materialEvent ev st =
     microtasks (st\<lparr>jobs := map (\<lambda>j. j\<lparr>jtask := onTexEvent ev (jtask j)\<rparr>) (jobs st)\<rparr>)"

text \<open>What becomes of the material once the call has ended and the events have arrived.\<close>

definition afterEvents :: "texEvent list \<Rightarrow> materialState \<Rightarrow> materialState" where
  "afterEvents evs st = fold materialEvent evs (microtasks st)"

section \<open>Models\<close>

record modelOpts =
  waitTextureLoaded :: jsval
  autoPlayAnimation :: jsval

text \<open>What the glTF loader hands to its \<^verbatim>\<open>success\<close> callbacks.\<close>

record loadResult =
  rootNode :: nat
  clips :: "nat list"
  textures :: "tid list"

text \<open>
  One \<^verbatim>\<open>Promise.all(...).then(...).catch(...)\<close>: the result the callbacks close over, a
  promise for each texture of the result, and whether one of the two callbacks has run.
  The value a texture's promise is fulfilled with is never read.
\<close>

record join =
  jresult :: loadResult
  parts :: "(tid \<times> unit promise) list"
  joined :: bool

text \<open>
  One call of \<^verbatim>\<open>loadModel\<close>: the promise it returned, and the calls of \<^verbatim>\<open>scene.add\<close>
  and \<^verbatim>\<open>timeline.addClip\<close> its callbacks have made, both taken to return normally.
\<close>

record modelLoad =
  lopts :: modelOpts
  outcome :: "loadResult promise"
  sceneAdded :: "nat list"
  clipsAdded :: "nat list"
  joins :: "join list"

text \<open>
  The loader reports success with a result, or failure; a texture's loader reports on a
  texture. With a success comes the list of the textures for which \<^verbatim>\<open>isRenderable()\<close>
  holds when the callback runs.
\<close>

datatype modelEvent =
    LoaderSuccess loadResult "tid list"
  | LoaderError
  | TextureEvent texEvent

definition loadModel :: "jsval \<Rightarrow> modelOpts option \<Rightarrow> error + modelLoad" where
  "loadModel url opts =
     (if \<not> isString url then Inl (Error ''Invalid URL.'')
      else Inr \<lparr>lopts = (case opts of
                           None \<Rightarrow> \<lparr>waitTextureLoaded = JUndefined, autoPlayAnimation = JUndefined\<rparr>
                         | Some opts \<Rightarrow> opts),
                outcome = Pending, sceneAdded = [], clipsAdded = [], joins = []\<rparr>)"

definition afterLoad :: "loadResult \<Rightarrow> modelLoad \<Rightarrow> modelLoad" where
  "afterLoad result st =
     st\<lparr>sceneAdded := sceneAdded st @ [rootNode result],
        clipsAdded := clipsAdded st
          @ (if truthy (autoPlayAnimation (lopts st)) then clips result else []),
        outcome := resolve result (outcome st)\<rparr>"

text \<open>\<^verbatim>\<open>Promise.all\<close>: rejected once a part is, fulfilled once all parts are.\<close>

definition promiseAll :: "'a promise list \<Rightarrow> 'a list promise" where
  "promiseAll ps =
     (if list_ex (\<lambda>p. p = Rejected) ps then Rejected
      else if list_all (\<lambda>p. p \<noteq> Pending) ps
      then Fulfilled (concat (map (\<lambda>p. case p of Fulfilled v \<Rightarrow> [v] | _ \<Rightarrow> []) ps))
      else Pending)"

text \<open>
  The promise jobs of the joins: when \<^verbatim>\<open>Promise.all\<close> is fulfilled the \<^verbatim>\<open>then\<close>
  callback runs, when it is rejected the \<^verbatim>\<open>catch\<close> callback runs; each is
  \<^verbatim>\<open>afterLoad(result)\<close>.
\<close>

fun settleJoins :: "join list \<Rightarrow> modelLoad \<Rightarrow> modelLoad \<times> join list" where
  "settleJoins [] st = (st, [])"
| "settleJoins (j # js) st =
     (if joined j then (case settleJoins js st of (st', js') \<Rightarrow> (st', j # js'))
      else case promiseAll (map snd (parts j)) of
             Pending \<Rightarrow> (case settleJoins js st of (st', js') \<Rightarrow> (st', j # js'))
           | Fulfilled vs \<Rightarrow>
               (case settleJoins js (afterLoad (jresult j) st) of
                  (st', js') \<Rightarrow> (st', j\<lparr>joined := True\<rparr> # js'))
           | Rejected \<Rightarrow>
               (case settleJoins js (afterLoad (jresult j) st) of
                  (st', js') \<Rightarrow> (st', j\<lparr>joined := True\<rparr> # js')))"

definition drain :: "modelLoad \<Rightarrow> modelLoad" where
  "drain st = (case settleJoins (joins st) st of (st', js) \<Rightarrow> st'\<lparr>joins := js\<rparr>)"

text \<open>
  The promise made for a texture of the result: \<^verbatim>\<open>Promise.resolve(texture)\<close> when the
  texture is renderable, else a promise that both callbacks of the texture resolve.
\<close>

definition texturePromise :: "tid list \<Rightarrow> tid \<Rightarrow> tid \<times> unit promise" where
  "texturePromise ready t = (t, if t \<in> set ready then Fulfilled () else Pending)"

definition settlePart :: "tid \<Rightarrow> tid \<times> unit promise \<Rightarrow> tid \<times> unit promise" where
  "settlePart t = (\<lambda>(t', p). (t', if t' = t then resolve () p else p))"

fun onModelEvent :: "modelEvent \<Rightarrow> modelLoad \<Rightarrow> modelLoad" where
  "onModelEvent (LoaderSuccess result ready) st =
     drain (if \<not> truthy (waitTextureLoaded (lopts st)) then afterLoad result st
            else st\<lparr>joins := joins st
                     @ [\<lparr>jresult = result, parts = map (texturePromise ready) (textures result),
                         joined = False\<rparr>]\<rparr>)"
| "onModelEvent LoaderError st = st\<lparr>outcome := reject (outcome st)\<rparr>"
| "onModelEvent (TextureEvent ev) st =
     drain (st\<lparr>joins := map (\<lambda>j. j\<lparr>parts := map (settlePart (eventTexture ev)) (parts j)\<rparr>)
                           (joins st)\<rparr>)"

definition modelEvents :: "modelEvent list \<Rightarrow> modelLoad \<Rightarrow> modelLoad" where
  "modelEvents evs st = fold onModelEvent evs st"

fun isLoaderEvent :: "modelEvent \<Rightarrow> bool" where
  "isLoaderEvent (TextureEvent ev) = False"
| "isLoaderEvent _ = True"

section \<open>Counters and sweeps, in closed form\<close>

text \<open>The counters after recording the references \<open>rs\<close>, one after the other.\<close>

fun bump :: "'r list \<Rightarrow> 'r used \<Rightarrow> 'r used" where
  "bump [] used = used"
| "bump (r # rs) used = bump rs (used(r \<mapsto> orZero (used r) + 1))"

text \<open>
  The entries of the previous snapshots that the traversal of \<open>sc\<close> does not visit,
  textures first.
\<close>

definition swept :: "tid list \<Rightarrow> gid list \<Rightarrow> scene \<Rightarrow> resource list" where
  "swept pt pg sc =
     map Texture (filter (\<lambda>r. r \<notin> set (textureRefs sc)) pt)
       @ map Geometry (filter (\<lambda>r. r \<notin> set (geometryRefs sc)) pg)"

section \<open>Example inputs\<close>

definition plainMaterial :: material where
  "plainMaterial = \<lparr>uniforms = [], depthMask = True, transparent = False\<rparr>"

text \<open>Two cubes that share the geometry at address 7.\<close>

definition sharedScene :: scene where
  "sharedScene =
     \<lparr>opaqueList = [\<lparr>geometry = 7, material = plainMaterial\<rparr>,
                     \<lparr>geometry = 7, material = plainMaterial\<rparr>],
      transparentList = [], lights = []\<rparr>"

definition emptyScene :: scene where
  "emptyScene = \<lparr>opaqueList = [], transparentList = [], lights = []\<rparr>"

text \<open>
  One transparent mesh whose material holds texture 5 as a uniform and again, with
  texture 6, inside an array uniform; a light whose cubemap is texture 5.
\<close>

definition texturedScene :: scene where
  "texturedScene =
     \<lparr>opaqueList = [],
      transparentList =
        [\<lparr>geometry = 1,
          material = \<lparr>uniforms =
              [(''diffuseMap'', \<lparr>utype = ''t'', uvalue = JTexture 5\<rparr>),
               (''alpha'', \<lparr>utype = ''f'', uvalue = JNum 1\<rparr>),
               (''maps'', \<lparr>utype = ''tv'', uvalue = JArray [JTexture 5, JNull, JTexture 6]\<rparr>)],
            depthMask = True, transparent = True\<rparr>\<rparr>],
      lights = [\<lparr>cubemap = None\<rparr>, \<lparr>cubemap = Some 5\<rparr>]\<rparr>"

text \<open>A document in which no selector finds an element.\<close>

definition emptyDocument :: "string \<Rightarrow> nat option" where
  "emptyDocument selector = None"

text \<open>Counters in which geometry 7 alone has been met, once.\<close>

definition metOnce :: "gid used" where
  "metOnce = Map.empty(7 \<mapsto> 1)"

definition loopingApp :: app where
  "loopingApp = \<lparr>frameListeners = [FrameHandler], gTexturesList = [], gGeometriesList = []\<rparr>"

definition idleApp :: app where
  "idleApp = \<lparr>frameListeners = [], gTexturesList = [], gGeometriesList = []\<rparr>"

text \<open>No resource has a counter yet; every texture is still loading.\<close>

definition freshHeap :: heap where
  "freshHeap = \<lparr>texUsed = (\<lambda>t. None), geoUsed = (\<lambda>g. None), texLoad = (\<lambda>t. LoadPending)\<rparr>"

section \<open>Loads and materials, in closed form\<close>

text \<open>
  What the first event about texture \<open>t\<close> makes of a promise that waits for it:
  success fulfils it with \<open>t\<close>, failure rejects it.
\<close>

definition verdict :: "tid \<Rightarrow> texEvent list \<Rightarrow> tid promise" where
  "verdict t evs =
     (case firstEvent t evs of
        None \<Rightarrow> Pending
      | Some (TexSuccess t') \<Rightarrow> Fulfilled t
      | Some (TexError t') \<Rightarrow> Rejected)"

text \<open>\<^verbatim>\<open>matConfig.shader || 'clay.standard'\<close>, and the configuration with it stored.\<close>

definition shaderOf :: "(string \<times> jsval) list option \<Rightarrow> jsval" where
  "shaderOf matConfig =
     (let v = getProp (case matConfig of None \<Rightarrow> [] | Some c \<Rightarrow> c) ''shader''
      in if truthy v then v else JStr ''clay.standard'')"

definition withShader :: "(string \<times> jsval) list option \<Rightarrow> (string \<times> jsval) list" where
  "withShader matConfig =
     AList.update ''shader'' (shaderOf matConfig) (case matConfig of None \<Rightarrow> [] | Some c \<Rightarrow> c)"

text \<open>\<^verbatim>\<open>material.uniforms[key]\<close>\<close>

definition declared :: "material \<Rightarrow> string \<Rightarrow> uniform option" where
  "declared m key = map_of (uniforms m) key"

text \<open>The keys whose value \<^verbatim>\<open>createMaterial\<close> hands to \<^verbatim>\<open>loadTexture\<close>.\<close>

definition textureKey :: "material \<Rightarrow> string \<Rightarrow> jsval \<Rightarrow> bool" where
  "textureKey m key val =
     (case declared m key of None \<Rightarrow> False | Some u \<Rightarrow> utype u = ''t'' \<or> isImageLikeElement val)"

text \<open>The texture object \<^verbatim>\<open>loadTextureSync\<close> builds from a value, without options.\<close>

definition textureFor :: "env \<Rightarrow> jsval \<Rightarrow> texture2D" where
  "textureFor env val = last (snd (loadTextureSync env val JUndefined []))"

text \<open>A job as \<^verbatim>\<open>loadTexture(val).then(makeTextureSetter(key))\<close> leaves it.\<close>

definition freshJob :: "env \<Rightarrow> texture2D list \<Rightarrow> string \<Rightarrow> jsval \<Rightarrow> job \<Rightarrow> bool" where
  "freshJob env store key val j \<longleftrightarrow>
     jkey j = key \<and> \<not> reacted j \<and> texture (jtask j) < length store
     \<and> store ! texture (jtask j) = textureFor env val
     \<and> listening (jtask j) = (\<not> isRenderable env (textureFor env val))
     \<and> promise (jtask j) =
         (if isRenderable env (textureFor env val) then Fulfilled (texture (jtask j)) else Pending)"

definition fulfilledWith :: "job \<Rightarrow> tid option" where
  "fulfilledWith j = (case promise (jtask j) of Fulfilled t \<Rightarrow> Some t | _ \<Rightarrow> None)"

text \<open>What a run of the promise jobs makes of one job.\<close>

definition react1 :: "job \<Rightarrow> job" where
  "react1 j = (if \<not> reacted j \<and> fulfilledWith j \<noteq> None then j\<lparr>reacted := True\<rparr> else j)"

text \<open>
  The job for \<open>key\<close> is in step with \<open>task\<close>: its setter has run exactly when the
  promise is fulfilled, and then the uniform holds the texture.
\<close>

definition tracks :: "materialState \<Rightarrow> string \<Rightarrow> uniform \<Rightarrow> textureTask \<Rightarrow> bool" where
  "tracks s key u task \<longleftrightarrow>
     distinct (map jkey (jobs s))
     \<and> (\<exists>j \<in> set (jobs s). jkey j = key \<and> jtask j = task
            \<and> (reacted j \<longleftrightarrow> promise task = Fulfilled (texture task)))
     \<and> (\<forall>x. promise task = Fulfilled x \<longrightarrow> x = texture task)
     \<and> declared (mat s) key =
         Some (if promise task = Fulfilled (texture task)
               then u\<lparr>uvalue := JTexture (texture task)\<rparr> else u)"




section \<open>Example inputs for the loaders\<close>

text \<open>
  A library in which a texture is renderable once an image is attached to it, and every
  shader declares a colour, two texture maps and an opacity; fresh materials are opaque
  and write depth.
\<close>

definition standardEnv :: env where
  "standardEnv =
     \<lparr>newTexture2D = (\<lambda>opts. \<lparr>topts = opts, image_src = JUndefined, dynamic = False,
                                loading = None\<rparr>),
      isRenderable = (\<lambda>t. image_src t \<noteq> JUndefined),
      newMaterial = (\<lambda>shader.
        \<lparr>uniforms = [(''color'', \<lparr>utype = ''3f'', uvalue = JNull\<rparr>),
                      (''diffuseMap'', \<lparr>utype = ''t'', uvalue = JNull\<rparr>),
                      (''normalMap'', \<lparr>utype = ''t'', uvalue = JNull\<rparr>),
                      (''alpha'', \<lparr>utype = ''f'', uvalue = JNum 1\<rparr>)],
         depthMask = True, transparent = False\<rparr>)\<rparr>"

definition exampleConfig :: "(string \<times> jsval) list" where
  "exampleConfig =
     [(''color'', JArray [JNum 1, JNum 0, JNum 0]),
      (''diffuseMap'', JStr ''a.png''),
      (''normalMap'', JCanvas 3),
      (''transparent'', JBool True),
      (''alpha'', JNum (1 / 2))]"

definition waitOpts :: modelOpts where
  "waitOpts = \<lparr>waitTextureLoaded = JBool True, autoPlayAnimation = JBool False\<rparr>"

definition exampleResult :: loadResult where
  "exampleResult = \<lparr>rootNode = 9, clips = [4], textures = [0, 1, 2]\<rparr>"

definition waitingLoad :: modelLoad where
  "waitingLoad = \<lparr>lopts = waitOpts, outcome = Pending, sceneAdded = [], clipsAdded = [], joins = []\<rparr>"

section \<open>The traversal and the sweep, step by step\<close>


lemma bump_append: "bump (xs @ ys) used = bump ys (bump xs used)"
  by (induction xs arbitrary: used) simp_all

lemma bump_notin: "r \<notin> set rs \<Longrightarrow> bump rs used r = used r"
  by (induction rs arbitrary: used) auto

lemma bump_in: "r \<in> set rs \<Longrightarrow> bump rs used r = Some (orZero (used r) + count_list rs r)"
proof (induction rs arbitrary: used)
  case Nil
  then show ?case by simp
next
  case (Cons x rs)
  define U where "U = used(x \<mapsto> orZero (used x) + 1)"
  have step: "bump (x # rs) used = bump rs U"
    by (simp add: U_def)
  have U_r: "orZero (U r) = (if r = x then orZero (used x) + 1 else orZero (used r))"
    by (simp add: U_def)
  show ?case
  proof (cases "r \<in> set rs")
    case True
    have "bump rs U r = Some (orZero (U r) + count_list rs r)"
      by (rule Cons.IH [OF True])
    then show ?thesis
      unfolding step U_r by simp
  next
    case False
    with Cons.prems have "x = r" by simp
    with False show ?thesis
      unfolding step by (simp add: bump_notin U_def)
  qed
qed

lemma markUsed_at: "markUsed rs used r = (if r \<in> set rs then Some 0 else used r)"
  by (induction rs arbitrary: used) auto

lemma trackArray_eq: "trackArray val (l, u) = (l @ arrayTextures val, bump (arrayTextures val) u)"
  by (induction val "(l, u)" arbitrary: l u rule: trackArray.induct) simp_all

lemma trackUniforms_eq:
  "trackUniforms us (l, u) =
     (l @ concat (map (\<lambda>(name, u). valueTextures (uvalue u)) us),
      bump (concat (map (\<lambda>(name, u). valueTextures (uvalue u)) us)) u)"
proof (induction us arbitrary: l u)
  case Nil
  then show ?case by simp
next
  case (Cons a us)
  obtain name un where a: "a = (name, un)" by (cases a)
  show ?case
    by (cases "uvalue un") (simp_all add: a Cons.IH trackArray_eq bump_append del: fun_upd_apply)
qed

lemma trackQueue_eq:
  "trackQueue queue ((l, u), (gl, gu)) =
     ((l @ queueTextures queue, bump (queueTextures queue) u),
      (gl @ map geometry queue, bump (map geometry queue) gu))"
proof (induction queue arbitrary: l u gl gu)
  case Nil
  then show ?case by (simp add: queueTextures_def)
next
  case (Cons rd queue)
  have "trackQueue (rd # queue) ((l, u), (gl, gu)) =
      trackQueue queue
        ((l @ materialTextures (material rd), bump (materialTextures (material rd)) u),
         (gl @ [geometry rd], bump [geometry rd] gu))"
    by (simp add: materialTextures_def trackUniforms_eq)
  then show ?case
    unfolding Cons.IH by (simp add: queueTextures_def bump_append)
qed

lemma trackLights_eq:
  "trackLights ls (l, u) = (l @ lightTextures ls, bump (lightTextures ls) u)"
proof (induction ls arbitrary: l u)
  case Nil
  then show ?case by (simp add: lightTextures_def)
next
  case (Cons a ls)
  show ?case
    unfolding trackLights.simps
    by (cases "cubemap a") (simp_all add: Cons.IH lightTextures_def del: fun_upd_apply)
qed

lemma collectResources_eq:
  "collectResources sc ((l, u), (gl, gu)) =
     ((l @ textureRefs sc, bump (textureRefs sc) u),
      (gl @ geometryRefs sc, bump (geometryRefs sc) gu))"
  by (simp add: collectResources_def trackQueue_eq trackLights_eq textureRefs_def
      geometryRefs_def bump_append)

lemma checkAndDispose_filter: "checkAndDispose rs used = filter (\<lambda>r. unused (used r)) rs"
  by (induction rs) simp_all

lemma sweep_eq:
  "checkAndDispose prev (bump rs (markUsed prev used)) = filter (\<lambda>r. r \<notin> set rs) prev"
proof -
  have "unused (bump rs (markUsed prev used) r) = (r \<notin> set rs)" if "r \<in> set prev" for r
  proof (cases "r \<in> set rs")
    case True
    then have "0 < count_list rs r" using count_list_0_iff [of rs r] by simp
    with True show ?thesis by (simp add: bump_in)
  next
    case False
    with that show ?thesis by (simp add: bump_notin markUsed_at)
  qed
  then show ?thesis
    unfolding checkAndDispose_filter by (intro filter_cong) auto
qed

lemma frameHandler_eq:
  "frameHandler sc (a, h) =
     ((a\<lparr>gTexturesList := textureRefs sc, gGeometriesList := geometryRefs sc\<rparr>,
       h\<lparr>texUsed := bump (textureRefs sc) (markUsed (gTexturesList a) (texUsed h)),
         geoUsed := bump (geometryRefs sc) (markUsed (gGeometriesList a) (geoUsed h))\<rparr>),
      swept (gTexturesList a) (gGeometriesList a) sc)"
  by (simp add: frameHandler_def collectResources_eq sweep_eq swept_def)


lemma count_filter: "count_list (filter P xs) x = (if P x then count_list xs x else 0)"
  by (induction xs) auto

lemma count_map_Texture [simp]:
  "count_list (map Texture xs) (Texture t) = count_list xs t"
  "count_list (map Texture xs) (Geometry g) = 0"
  by (induction xs) auto

lemma count_map_Geometry [simp]:
  "count_list (map Geometry xs) (Geometry g) = count_list xs g"
  "count_list (map Geometry xs) (Texture t) = 0"
  by (induction xs) auto

lemma arrayTextures_set: "t \<in> set (arrayTextures val) \<longleftrightarrow> JTexture t \<in> set val"
  by (induction val rule: arrayTextures.induct) auto

lemma valueTextures_set:
  "t \<in> set (valueTextures v) \<longleftrightarrow>
     v = JTexture t \<or> (case v of JArray val \<Rightarrow> list_ex (\<lambda>v. v = JTexture t) val | _ \<Rightarrow> False)"
  by (cases v) (auto simp: arrayTextures_set list_ex_iff)

lemma uniformTextures_set:
  "t \<in> set (concat (map (\<lambda>(name, u). valueTextures (uvalue u)) us)) \<longleftrightarrow>
     list_ex (\<lambda>(name, u). uvalue u = JTexture t
                \<or> (case uvalue u of JArray val \<Rightarrow> list_ex (\<lambda>v. v = JTexture t) val | _ \<Rightarrow> False)) us"
proof (induction us)
  case Nil
  then show ?case by simp
next
  case (Cons a us)
  obtain name u where a: "a = (name, u)" by (cases a)
  show ?case
    using Cons.IH valueTextures_set [of t "uvalue u"] by (simp add: a)
qed

lemma materialTextures_set: "t \<in> set (materialTextures (material rd)) \<longleftrightarrow> textureOf rd t"
  unfolding materialTextures_def textureOf_def by (rule uniformTextures_set)

lemma lightTextures_set: "t \<in> set (lightTextures ls) \<longleftrightarrow> list_ex (\<lambda>l. cubemap l = Some t) ls"
  by (induction ls) (auto simp: lightTextures_def split: option.splits)

lemma queueTextures_set: "t \<in> set (queueTextures q) \<longleftrightarrow> list_ex (\<lambda>rd. textureOf rd t) q"
  by (induction q) (auto simp: queueTextures_def materialTextures_set)

lemma reachable_refs: "reachable sc R \<longleftrightarrow> R \<in> set (refs sc)"
proof (cases R)
  case (Texture t)
  show ?thesis
    by (auto simp: Texture refs_def textureRefs_def lightTextures_set queueTextures_set)
next
  case (Geometry g)
  then show ?thesis
    by (auto simp: refs_def geometryRefs_def list_ex_iff)
qed

lemma count_swept:
  "count_list (swept pt pg sc) R =
     (if reachable sc R then 0 else count_list (map Texture pt @ map Geometry pg) R)"
  by (cases R) (auto simp: swept_def count_filter reachable_refs refs_def)

lemma tick_registered:
  "frameListeners a = [FrameHandler] \<Longrightarrow>
     tick sc (a, h) =
       ((a\<lparr>gTexturesList := textureRefs sc, gGeometriesList := geometryRefs sc\<rparr>,
         h\<lparr>texUsed := bump (textureRefs sc) (markUsed (gTexturesList a) (texUsed h)),
           geoUsed := bump (geometryRefs sc) (markUsed (gGeometriesList a) (geoUsed h))\<rparr>),
        swept (gTexturesList a) (gGeometriesList a) sc)"
  by (simp add: tick_def frameHandler_eq)

lemma disposals_Cons:
  "disposals (sc # scs) s = snd (tick sc s) # disposals scs (fst (tick sc s))"
  unfolding disposals_def by (simp split: prod.splits)

lemma disposals_nth:
  "frameListeners a = [FrameHandler] \<Longrightarrow> i < length scs \<Longrightarrow>
     disposals scs (a, h) ! i =
       (if i = 0 then swept (gTexturesList a) (gGeometriesList a) (scs ! 0)
        else swept (textureRefs (scs ! (i - 1))) (geometryRefs (scs ! (i - 1))) (scs ! i))"
proof (induction scs arbitrary: a h i)
  case Nil
  then show ?case by simp
next
  case (Cons sc scs)
  show ?case
  proof (cases i)
    case 0
    then show ?thesis
      by (simp add: disposals_Cons tick_registered [OF Cons.prems(1)])
  next
    case (Suc j)
    with Cons.prems have j: "j < length scs" by simp
    let ?a = "a\<lparr>gTexturesList := textureRefs sc, gGeometriesList := geometryRefs sc\<rparr>"
    have reg: "frameListeners ?a = [FrameHandler]" using Cons.prems(1) by simp
    show ?thesis
      using Cons.IH [OF reg j]
      by (cases j) (simp_all add: Suc disposals_Cons tick_registered [OF Cons.prems(1)])
  qed
qed

lemma App3D_fresh:
  "App3D qs container ns = Inr a \<Longrightarrow> gTexturesList a = [] \<and> gGeometriesList a = []"
  by (auto simp: App3D_def Let_def split: if_splits)

lemma App3D_loop:
  "App3D qs container (Some ns) = Inr a \<Longrightarrow> loop ns \<noteq> None \<Longrightarrow> frameListeners a = [FrameHandler]"
  by (auto simp: App3D_def Let_def split: if_splits)

lemma swept_unreachable: "reachable sc R \<Longrightarrow> R \<notin> set (swept pt pg sc)"
  using count_swept [of pt pg sc R] count_list_0_iff [of "swept pt pg sc" R] by simp

lemma emit_unreachable: "reachable sc R \<Longrightarrow> R \<notin> set (snd (emit ls sc s))"
proof (induction ls arbitrary: s)
  case Nil
  then show ?case by simp
next
  case (Cons l ls)
  obtain a h where s: "s = (a, h)" by (cases s)
  have l: "l = FrameHandler" by (cases l)
  show ?case
    using Cons.IH [OF Cons.prems] swept_unreachable [OF Cons.prems]
    by (simp add: l s frameHandler_eq split_beta)
qed

lemma frameHandler_texLoad:
  "frameHandler sc (a, h\<lparr>texLoad := ld\<rparr>) =
     (case frameHandler sc (a, h) of ((a', h'), d) \<Rightarrow> ((a', h'\<lparr>texLoad := ld\<rparr>), d))"
  by (simp add: frameHandler_eq)

lemma emit_texLoad:
  "emit ls sc (a, h\<lparr>texLoad := ld\<rparr>) =
     (case emit ls sc (a, h) of ((a', h'), d) \<Rightarrow> ((a', h'\<lparr>texLoad := ld\<rparr>), d))"
proof (induction ls arbitrary: a h)
  case Nil
  then show ?case by simp
next
  case (Cons l ls)
  have l: "l = FrameHandler" by (cases l)
  show ?case
    unfolding l emit.simps frameHandler_texLoad
    by (simp add: Cons.IH split: prod.splits)
qed

lemma App3D_looping:
  "App3D emptyDocument (DomElement 0) (Some \<lparr>init = None, loop = Some 0\<rparr>) = Inr loopingApp"
  by (simp add: App3D_def loopingApp_def)

lemma App3D_idle:
  "App3D emptyDocument (DomElement 0) (Some \<lparr>init = Some 0, loop = None\<rparr>) = Inr idleApp"
  by (simp add: App3D_def idleApp_def)

section \<open>Claims about the usage tracker\<close>

text \<open>
  C1, as stated, fails. The claim: a resource reachable exactly during the frames from
  \<open>lo\<close> to \<open>hi\<close> is disposed exactly once, at the sweep after frame \<open>hi\<close>, also when
  several renderables shared it in its last live frame. Here two cubes share geometry 7
  in frame 0 and the scene is empty in frame 1: the sweep of tick 1 calls
  \<^verbatim>\<open>dispose\<close> on geometry 7 twice, once per entry of the previous snapshot.
\<close>

theorem shared_resource_disposed_twice:
  "App3D emptyDocument (DomElement 0) (Some \<lparr>init = None, loop = Some 0\<rparr>) = Inr loopingApp
   \<and> reachable sharedScene (Geometry 7) \<and> \<not> reachable emptyScene (Geometry 7)
   \<and> disposals [sharedScene, emptyScene] (loopingApp, freshHeap) = [[], [Geometry 7, Geometry 7]]
   \<and> count_list (disposals [sharedScene, emptyScene] (loopingApp, freshHeap) ! 1) (Geometry 7) = 2"
  by (simp add: App3D_def loopingApp_def sharedScene_def emptyScene_def freshHeap_def
      plainMaterial_def disposals_def tick_def frameHandler_def collectResources_def)

text \<open>
  C1, amended: for an application built with a loop callback, and a resource \<open>R\<close>
  reachable from the scene exactly during the frames \<open>lo\<close> to \<open>hi\<close>, with a tick after
  frame \<open>hi\<close>: no sweep but the one of tick \<open>hi + 1\<close> calls \<^verbatim>\<open>dispose\<close> on \<open>R\<close>, and
  that sweep calls it once for every time the traversal of frame \<open>hi\<close> met \<open>R\<close>, so at
  least once, and exactly once when \<open>R\<close> was referenced once.
\<close>

theorem dispose_after_last_frame:
  assumes app: "App3D qs container (Some ns) = Inr a" and lp: "loop ns \<noteq> None"
    and hi: "Suc hi < length scs"
    and live: "\<forall>i < length scs. reachable (scs ! i) R \<longleftrightarrow> lo \<le> i \<and> i \<le> hi"
    and lohi: "lo \<le> hi"
  shows "(\<forall>i < length scs. count_list (disposals scs (a, h) ! i) R =
            (if i = Suc hi then count_list (refs (scs ! hi)) R else 0))
         \<and> 0 < count_list (refs (scs ! hi)) R"
proof -
  have reg: "frameListeners a = [FrameHandler]" by (rule App3D_loop [OF app lp])
  have fresh: "gTexturesList a = []" "gGeometriesList a = []"
    using App3D_fresh [OF app] by simp_all
  have in_hi: "R \<in> set (refs (scs ! hi))"
    using live hi lohi by (simp add: reachable_refs [symmetric])
  then have pos: "0 < count_list (refs (scs ! hi)) R"
    using count_list_0_iff [of "refs (scs ! hi)" R] by simp
  have "count_list (disposals scs (a, h) ! i) R =
          (if i = Suc hi then count_list (refs (scs ! hi)) R else 0)" if i: "i < length scs" for i
  proof (cases i)
    case 0
    then show ?thesis
      using disposals_nth [OF reg i] by (simp add: fresh swept_def)
  next
    case (Suc j)
    have j: "j < length scs" using i Suc by simp
    have eq: "count_list (disposals scs (a, h) ! i) R =
        (if reachable (scs ! i) R then 0 else count_list (refs (scs ! j)) R)"
      using disposals_nth [OF reg i] by (simp add: Suc count_swept refs_def)
    show ?thesis
    proof (cases "j = hi")
      case True
      then have "\<not> reachable (scs ! i) R" using live i Suc by simp
      then show ?thesis using eq True Suc by simp
    next
      case False
      show ?thesis
      proof (cases "reachable (scs ! i) R")
        case True
        then show ?thesis using eq False Suc by simp
      next
        case nr: False
        have "\<not> reachable (scs ! j) R"
        proof
          assume "reachable (scs ! j) R"
          then have "lo \<le> j" "j \<le> hi" using live j by simp_all
          with False have "lo \<le> i" "i \<le> hi" using Suc by simp_all
          then show False using nr live i by simp
        qed
        then have "count_list (refs (scs ! j)) R = 0"
          by (simp add: reachable_refs)
        then show ?thesis using eq nr False Suc by simp
      qed
    qed
  qed
  with pos show ?thesis by simp
qed

theorem dispose_after_last_frame_witness:
  "count_list (disposals [sharedScene, emptyScene] (loopingApp, freshHeap) ! 1) (Geometry 7) = 2
   \<and> count_list (disposals [sharedScene, emptyScene] (loopingApp, freshHeap) ! 0) (Geometry 7) = 0"
proof -
  have live: "\<forall>i < length [sharedScene, emptyScene].
      reachable ([sharedScene, emptyScene] ! i) (Geometry 7) \<longleftrightarrow> 0 \<le> i \<and> i \<le> 0"
    by (simp add: All_less_Suc sharedScene_def emptyScene_def)
  have len: "Suc 0 < length [sharedScene, emptyScene]" by simp
  have lp: "loop \<lparr>init = None, loop = Some (0::nat)\<rparr> \<noteq> None" by simp
  have cnt: "count_list (refs sharedScene) (Geometry 7) = 2"
    by (simp add: refs_def textureRefs_def geometryRefs_def sharedScene_def queueTextures_def
        lightTextures_def)
  from dispose_after_last_frame [OF App3D_looping lp len live, of freshHeap]
  show ?thesis using cnt by simp
qed

text \<open>
  C2: in any tick, whatever the snapshots, the counters and the load states on entry, a
  resource reachable from the scene (a renderable's geometry, a texture uniform, a
  texture inside an array uniform, a light's cubemap) is not disposed by the sweep of
  that tick; and the tick does the same, and leaves the load states alone, whatever the
  load state of every texture: a pending texture counts like a ready one.
\<close>

theorem reachable_never_disposed:
  "(reachable sc R \<longrightarrow> R \<notin> set (snd (tick sc (a, h))))
   \<and> tick sc (a, h\<lparr>texLoad := ld\<rparr>) =
       (case tick sc (a, h) of ((a', h'), d) \<Rightarrow> ((a', h'\<lparr>texLoad := ld\<rparr>), d))"
  by (simp add: tick_def emit_unreachable emit_texLoad)

theorem reachable_never_disposed_witness:
  "reachable texturedScene (Texture 6)
   \<and> texLoad freshHeap 6 = LoadPending
   \<and> Texture 6 \<notin> set (snd (tick texturedScene (loopingApp\<lparr>gTexturesList := [6, 8]\<rparr>, freshHeap)))"
proof -
  have r: "reachable texturedScene (Texture 6)"
    by (simp add: texturedScene_def textureOf_def)
  have p: "texLoad freshHeap 6 = LoadPending"
    by (simp add: freshHeap_def)
  have d: "Texture 6 \<notin> set (snd (tick texturedScene (loopingApp\<lparr>gTexturesList := [6, 8]\<rparr>, freshHeap)))"
    using reachable_never_disposed [of texturedScene "Texture 6"] r by blast
  from r p d show ?thesis by blast
qed

text \<open>
  C3, as stated, fails. The claim: a resource is appended to the new snapshot only when
  its counter goes from 0 to 1, so a snapshot holds a live resource at most once. Here
  geometry 7 is already in the list with counter 1: \<^verbatim>\<open>updateUsed\<close> appends it again and
  the counter becomes 2; the snapshot of a frame with two cubes sharing geometry 7 is
  \<open>[7, 7]\<close>.
\<close>

theorem snapshot_repeats_shared_resource:
  "fst (updateUsed 7 ([7], metOnce)) = [7, 7]
   \<and> snd (updateUsed 7 ([7], metOnce)) 7 = Some 2
   \<and> gGeometriesList (fst (fst (frameHandler sharedScene (loopingApp, freshHeap)))) = [7, 7]
   \<and> \<not> distinct (gGeometriesList (fst (fst (frameHandler sharedScene (loopingApp, freshHeap)))))"
  by (simp add: frameHandler_def collectResources_def sharedScene_def loopingApp_def
      freshHeap_def plainMaterial_def metOnce_def)

text \<open>
  C3, amended: the traversal appends a resource to the new snapshot at every encounter,
  whatever its counter. After a frame the snapshots are the references the traversal
  met, in its order; they hold exactly the reachable resources, each as many times as it
  was met; and the counter of a resource of the new snapshot is its number of entries
  there (added to the counter it came with, when the previous snapshot did not hold it).
\<close>

theorem snapshot_holds_every_encounter:
  assumes "frameHandler sc (a, h) = ((a', h'), d)"
  shows "gTexturesList a' = textureRefs sc \<and> gGeometriesList a' = geometryRefs sc
    \<and> (\<forall>R. reachable sc R \<longleftrightarrow>
          R \<in> set (map Texture (gTexturesList a') @ map Geometry (gGeometriesList a')))
    \<and> (\<forall>t \<in> set (gTexturesList a'). texUsed h' t =
          Some ((if t \<in> set (gTexturesList a) then 0 else orZero (texUsed h t))
                + count_list (gTexturesList a') t))
    \<and> (\<forall>g \<in> set (gGeometriesList a'). geoUsed h' g =
          Some ((if g \<in> set (gGeometriesList a) then 0 else orZero (geoUsed h g))
                + count_list (gGeometriesList a') g))"
proof -
  from assms have a': "a' = a\<lparr>gTexturesList := textureRefs sc, gGeometriesList := geometryRefs sc\<rparr>"
    and h': "h' = h\<lparr>texUsed := bump (textureRefs sc) (markUsed (gTexturesList a) (texUsed h)),
           geoUsed := bump (geometryRefs sc) (markUsed (gGeometriesList a) (geoUsed h))\<rparr>"
    by (simp_all add: frameHandler_eq)
  show ?thesis
    by (simp add: a' h' bump_in markUsed_at reachable_refs refs_def)
qed

theorem snapshot_holds_every_encounter_witness:
  "gTexturesList (fst (fst (frameHandler texturedScene (loopingApp, freshHeap)))) = [5, 5, 6, 5]
   \<and> gGeometriesList (fst (fst (frameHandler texturedScene (loopingApp, freshHeap)))) = [1]
   \<and> texUsed (snd (fst (frameHandler texturedScene (loopingApp, freshHeap)))) 5 = Some 3"
proof -
  define a' where "a' = fst (fst (frameHandler texturedScene (loopingApp, freshHeap)))"
  define h' where "h' = snd (fst (frameHandler texturedScene (loopingApp, freshHeap)))"
  define d where "d = snd (frameHandler texturedScene (loopingApp, freshHeap))"
  have run: "frameHandler texturedScene (loopingApp, freshHeap) = ((a', h'), d)"
    by (simp add: a'_def h'_def d_def)
  have tr: "textureRefs texturedScene = [5, 5, 6, 5]"
    by (simp add: textureRefs_def texturedScene_def queueTextures_def materialTextures_def
        lightTextures_def)
  have gr: "geometryRefs texturedScene = [1]"
    by (simp add: geometryRefs_def texturedScene_def)
  have old: "gTexturesList loopingApp = []" "texUsed freshHeap 5 = None"
    by (simp_all add: loopingApp_def freshHeap_def)
  note inst = snapshot_holds_every_encounter [OF run]
  from inst have t: "gTexturesList a' = [5, 5, 6, 5]" and g: "gGeometriesList a' = [1]"
    by (simp_all add: tr gr)
  from inst have "\<forall>t \<in> set (gTexturesList a'). texUsed h' t =
          Some ((if t \<in> set (gTexturesList loopingApp) then 0 else orZero (texUsed freshHeap t))
                + count_list (gTexturesList a') t)"
    by blast
  then have "texUsed h' 5 = Some 3"
    by (simp add: t old)
  with t g show ?thesis
    by (simp add: a'_def h'_def)
qed

text \<open>
  C9: when the application is built without a loop callback (no namespace object, or one
  with no \<^verbatim>\<open>loop\<close>), no listener is registered for \<^verbatim>\<open>'frame'\<close>; then, whatever scenes
  the ticks see and however many there are, no tick calls \<^verbatim>\<open>dispose\<close> and the
  snapshots and counters stay as they were. With a loop callback the frame handler is
  registered.
\<close>

theorem no_loop_no_sweep:
  assumes "App3D qs container ns = Inr a"
  shows "((\<forall>n. ns = Some n \<longrightarrow> loop n = None) \<longrightarrow>
            frameListeners a = [] \<and> runFrames scs (a, h) = ((a, h), replicate (length scs) []))
       \<and> ((\<exists>n. ns = Some n \<and> loop n \<noteq> None) \<longrightarrow> frameListeners a = [FrameHandler])"
proof -
  have "frameListeners a = [] \<and> runFrames scs (a, h) = ((a, h), replicate (length scs) [])"
    if nl: "\<forall>n. ns = Some n \<longrightarrow> loop n = None"
  proof -
    have fl: "frameListeners a = []"
      using assms nl by (cases ns) (auto simp: App3D_def Let_def split: if_splits)
    have "runFrames scs (a, h) = ((a, h), replicate (length scs) [])"
      by (induction scs) (simp_all add: tick_def fl)
    with fl show ?thesis by simp
  qed
  moreover have "frameListeners a = [FrameHandler]" if "\<exists>n. ns = Some n \<and> loop n \<noteq> None"
    using that assms App3D_loop by blast
  ultimately show ?thesis by blast
qed

theorem no_loop_no_sweep_witness:
  "frameListeners idleApp = []
   \<and> runFrames [texturedScene, sharedScene, emptyScene] (idleApp, freshHeap)
       = ((idleApp, freshHeap), [[], [], []])"
proof -
  have nl: "\<forall>n. Some \<lparr>init = Some (0::nat), loop = None\<rparr> = Some n \<longrightarrow> loop n = None"
    by simp
  from no_loop_no_sweep [OF App3D_idle, of "[texturedScene, sharedScene, emptyScene]" freshHeap] nl
  show ?thesis by (simp add: numeral_3_eq_3)
qed

section \<open>Texture loads\<close>

lemma resolve_settled: "p \<noteq> Pending \<Longrightarrow> resolve v p = p"
  by (cases p) simp_all

lemma reject_settled: "p \<noteq> Pending \<Longrightarrow> reject p = p"
  by (cases p) simp_all

lemma onTexEvent_frame [simp]:
  "texture (onTexEvent ev task) = texture task"
  "listening (onTexEvent ev task) = listening task"
  by (cases ev; simp)+

lemma onTexEvent_settled:
  "promise task \<noteq> Pending \<Longrightarrow> promise (onTexEvent ev task) = promise task"
  by (cases ev) (simp_all add: resolve_settled reject_settled)

lemma onTexEvent_other:
  "eventTexture ev \<noteq> texture task \<Longrightarrow> onTexEvent ev task = task"
  by (cases ev) auto

lemma fold_settled:
  "promise task \<noteq> Pending \<Longrightarrow> promise (fold onTexEvent evs task) = promise task"
  by (induction evs arbitrary: task) (simp_all add: onTexEvent_settled)

lemma fold_frame [simp]:
  "texture (fold onTexEvent evs task) = texture task"
  "listening (fold onTexEvent evs task) = listening task"
  by (induction evs arbitrary: task) simp_all

lemma fold_pending:
  "listening task \<Longrightarrow> promise task = Pending \<Longrightarrow>
     promise (fold onTexEvent evs task) = verdict (texture task) evs"
proof (induction evs arbitrary: task)
  case Nil
  then show ?case by (simp add: verdict_def firstEvent_def)
next
  case (Cons ev evs)
  show ?case
  proof (cases "eventTexture ev = texture task")
    case True
    then have "promise (onTexEvent ev task) \<noteq> Pending"
      using Cons.prems by (cases ev) simp_all
    then have "promise (fold onTexEvent (ev # evs) task) = promise (onTexEvent ev task)"
      by (simp add: fold_settled)
    then show ?thesis
      using True Cons.prems by (cases ev) (simp_all add: verdict_def firstEvent_def)
  next
    case False
    then show ?thesis
      using Cons.IH [OF Cons.prems]
      by (simp add: onTexEvent_other verdict_def firstEvent_def)
  qed
qed

lemma loadTextureSync_fresh:
  "fst (loadTextureSync env urlOrImg opts store) = length store"
  "length (snd (loadTextureSync env urlOrImg opts store)) = Suc (length store)"
  by (simp_all add: loadTextureSync_def Let_def)

text \<open>
  C6: the promise of \<^verbatim>\<open>loadTexture\<close> is about the object that \<^verbatim>\<open>loadTextureSync\<close>
  builds for the same call: \<^verbatim>\<open>loadTexture\<close> leaves the store as \<^verbatim>\<open>loadTextureSync\<close>
  does and closes over the address \<open>t\<close> it returns. If the texture is renderable at
  once the promise is fulfilled with \<open>t\<close> when the call ends and stays so; otherwise it
  is pending until the first event about \<open>t\<close>, which fulfils it with \<open>t\<close> if it is
  the success callback and rejects it if it is the error callback.
\<close>

theorem loadTexture_same_object:
  assumes "loadTextureSync env urlOrImg opts store = (t, store')"
  shows "\<exists>task. loadTexture env urlOrImg opts store = (task, store') \<and> texture task = t
           \<and> (\<forall>evs. promise (fold onTexEvent evs task) =
                 (if isRenderable env (store' ! t) then Fulfilled t else verdict t evs))"
proof (cases "isRenderable env (store' ! t)")
  case True
  let ?task = "\<lparr>texture = t, promise = Fulfilled t, listening = False\<rparr>"
  have "loadTexture env urlOrImg opts store = (?task, store')"
    using assms True by (simp add: loadTexture_def)
  moreover have "promise (fold onTexEvent evs ?task) = Fulfilled t" for evs
    by (simp add: fold_settled)
  ultimately show ?thesis using True by simp
next
  case False
  let ?task = "\<lparr>texture = t, promise = Pending, listening = True\<rparr>"
  have "loadTexture env urlOrImg opts store = (?task, store')"
    using assms False by (simp add: loadTexture_def)
  moreover have "promise (fold onTexEvent evs ?task) = verdict t evs" for evs
    using fold_pending [of ?task evs] by simp
  ultimately show ?thesis using False by simp
qed

theorem loadTexture_same_object_witness:
  "\<exists>task. loadTexture standardEnv (JStr ''a.png'') JUndefined []
            = (task, snd (loadTextureSync standardEnv (JStr ''a.png'') JUndefined []))
         \<and> texture task = 0
         \<and> promise (fold onTexEvent [] task) = Pending
         \<and> promise (fold onTexEvent [TexError 1, TexSuccess 0, TexError 0] task) = Fulfilled 0
         \<and> promise (fold onTexEvent [TexError 0, TexSuccess 0] task) = Rejected"
proof -
  define store' where "store' = snd (loadTextureSync standardEnv (JStr ''a.png'') JUndefined [])"
  have sync: "loadTextureSync standardEnv (JStr ''a.png'') JUndefined [] = (0, store')"
    by (simp add: store'_def loadTextureSync_def)
  have nr: "\<not> isRenderable standardEnv (store' ! 0)"
    by (simp add: store'_def loadTextureSync_def standardEnv_def load_def)
  have v: "verdict 0 [] = Pending"
    "verdict 0 [TexError 1, TexSuccess 0, TexError 0] = Fulfilled 0"
    "verdict 0 [TexError 0, TexSuccess 0] = Rejected"
    by (simp_all add: verdict_def firstEvent_def)
  from loadTexture_same_object [OF sync] obtain task
    where task: "loadTexture standardEnv (JStr ''a.png'') JUndefined [] = (task, store')"
      "texture task = 0"
      and later: "\<And>evs. promise (fold onTexEvent evs task) =
                 (if isRenderable standardEnv (store' ! 0) then Fulfilled 0 else verdict 0 evs)"
    by blast
  have "promise (fold onTexEvent [] task) = Pending"
    "promise (fold onTexEvent [TexError 1, TexSuccess 0, TexError 0] task) = Fulfilled 0"
    "promise (fold onTexEvent [TexError 0, TexSuccess 0] task) = Rejected"
    unfolding later using nr v by simp_all
  with task show ?thesis
    unfolding store'_def [symmetric] by (intro exI [of _ task]) blast
qed

section \<open>Materials: what the configuration does not reach\<close>

lemma getProp_update: "getProp (AList.update k v obj) k' = (if k' = k then v else getProp obj k')"
  by (simp add: getProp_def update_conv')

lemma setUniform_flags [simp]:
  "depthMask (setUniform key val m) = depthMask m"
  "transparent (setUniform key val m) = transparent m"
  by (simp_all add: setUniform_def)

lemma configure_flags:
  "configure env cfg (m, js, store) = (m', js', store') \<Longrightarrow>
     depthMask m' = depthMask m \<and> transparent m' = transparent m"
proof (induction cfg arbitrary: m js store)
  case Nil
  then show ?case by simp
next
  case (Cons kv cfg)
  obtain key val where kv: "kv = (key, val)" by (cases kv)
  show ?case
    using Cons.prems Cons.IH
    by (auto simp: kv split: option.splits if_splits prod.splits)
qed

lemma react_flags:
  "react js m = (m', js') \<Longrightarrow> depthMask m' = depthMask m \<and> transparent m' = transparent m"
proof (induction js arbitrary: m m' js')
  case Nil
  then show ?case by simp
next
  case (Cons j js)
  show ?case
    using Cons.prems Cons.IH
    by (auto split: prod.splits bool.splits promise.splits)
qed

lemma microtasks_flags [simp]:
  "depthMask (mat (microtasks st)) = depthMask (mat st)"
  "transparent (mat (microtasks st)) = transparent (mat st)"
  using react_flags [of "jobs st" "mat st"]
  by (auto simp: microtasks_def split: prod.splits)

lemma materialEvent_flags [simp]:
  "depthMask (mat (materialEvent ev st)) = depthMask (mat st)"
  "transparent (mat (materialEvent ev st)) = transparent (mat st)"
  by (simp_all add: materialEvent_def)

lemma afterEvents_flags:
  "depthMask (mat (afterEvents evs st)) = depthMask (mat st)
   \<and> transparent (mat (afterEvents evs st)) = transparent (mat st)"
proof -
  have "depthMask (mat (fold materialEvent evs s)) = depthMask (mat s)
      \<and> transparent (mat (fold materialEvent evs s)) = transparent (mat s)" for s
    by (induction evs arbitrary: s) simp_all
  then show ?thesis by (simp add: afterEvents_def)
qed

lemma createMaterial_flags:
  "depthMask (mat (afterEvents evs (fst (createMaterial env matConfig store))))
     = depthMask (newMaterial env (shaderOf matConfig))
   \<and> transparent (mat (afterEvents evs (fst (createMaterial env matConfig store))))
     = transparent (newMaterial env (shaderOf matConfig))"
proof -
  define cfg where "cfg = (case matConfig of None \<Rightarrow> [] | Some c \<Rightarrow> c)"
  define cfg1 where "cfg1 = AList.update ''shader'' (shaderOf matConfig) cfg"
  have sh: "getProp cfg1 ''shader'' = shaderOf matConfig"
    by (simp add: cfg1_def getProp_update)
  obtain m js store' where c: "configure env cfg1 (newMaterial env (shaderOf matConfig), [], store) = (m, js, store')"
    by (cases "configure env cfg1 (newMaterial env (shaderOf matConfig), [], store)") auto
  have "mat (fst (createMaterial env matConfig store)) = m"
    using c sh by (simp add: createMaterial_def Let_def cfg_def [symmetric] shaderOf_def cfg1_def)
  then show ?thesis
    using configure_flags [OF c] afterEvents_flags [of evs "fst (createMaterial env matConfig store)"]
    by simp
qed

text \<open>
  C8, at the failing input: \<^verbatim>\<open>createMaterial({transparent: true})\<close>, in a library whose
  fresh materials are opaque and write depth. The material returned is still opaque and
  still writes depth; it is the configuration object that received
  \<^verbatim>\<open>depthMask = false\<close> and \<^verbatim>\<open>transparent = true\<close>. By \<open>createMaterial_flags\<close> the
  same holds for every configuration and after every event.
\<close>

theorem transparent_config_leaves_material_opaque:
  "transparent (mat (fst (createMaterial standardEnv (Some [(''transparent'', JBool True)]) []))) = False
   \<and> depthMask (mat (fst (createMaterial standardEnv (Some [(''transparent'', JBool True)]) []))) = True
   \<and> fst (snd (createMaterial standardEnv (Some [(''transparent'', JBool True)]) []))
       = [(''transparent'', JBool True), (''shader'', JStr ''clay.standard''),
          (''depthMask'', JBool False)]"
  by (simp add: createMaterial_def getProp_def standardEnv_def)

section \<open>Materials: uniforms\<close>

lemma map_of_assign:
  "map_of (map (\<lambda>(name, u). if name = k then (name, u\<lparr>uvalue := v\<rparr>) else (name, u)) us) k' =
     (if k' = k then map_option (\<lambda>u. u\<lparr>uvalue := v\<rparr>) (map_of us k') else map_of us k')"
  by (induction us) auto

lemma declared_setUniform:
  "declared (setUniform k v m) k' =
     (if k' = k then map_option (\<lambda>u. u\<lparr>uvalue := v\<rparr>) (declared m k') else declared m k')"
proof -
  have "uniforms (setUniform k v m) =
      map (\<lambda>(name, u). if name = k then (name, u\<lparr>uvalue := v\<rparr>) else (name, u)) (uniforms m)"
    by (simp add: setUniform_def)
  then show ?thesis
    unfolding declared_def by (simp only: map_of_assign)
qed

lemma loadTextureSync_object:
  "snd (loadTextureSync env val opts store) = store @ [last (snd (loadTextureSync env val opts []))]"
  by (simp add: loadTextureSync_def Let_def)

lemma loadTexture_fresh:
  assumes "loadTexture env val JUndefined store = (task, store1)"
  shows "store1 = store @ [textureFor env val] \<and> texture task = length store
       \<and> listening task = (\<not> isRenderable env (textureFor env val))
       \<and> promise task = (if isRenderable env (textureFor env val) then Fulfilled (length store) else Pending)"
proof -
  have s: "loadTextureSync env val JUndefined store = (length store, store @ [textureFor env val])"
    using loadTextureSync_object [of env val JUndefined store] loadTextureSync_fresh(1) [of env val JUndefined store]
    by (simp add: textureFor_def prod_eq_iff)
  show ?thesis
    using assms unfolding loadTexture_def s by (auto split: if_splits)
qed

lemma freshJob_extend:
  "freshJob env store key val j \<Longrightarrow> freshJob env (store @ extra) key val j"
  by (simp add: freshJob_def nth_append)

lemma configure_grows:
  "configure env cfg (m, js, store) = (m', js', store') \<Longrightarrow>
     (\<exists>new. js' = js @ new) \<and> (\<exists>extra. store' = store @ extra)"
proof (induction cfg arbitrary: m js store)
  case Nil
  then show ?case by simp
next
  case (Cons kv cfg)
  obtain key val where kv: "kv = (key, val)" by (cases kv)
  show ?case
  proof (cases "map_of (uniforms m) key")
    case None
    then show ?thesis using Cons.prems Cons.IH by (simp add: kv)
  next
    case (Some u)
    show ?thesis
    proof (cases "utype u = ''t'' \<or> isImageLikeElement val")
      case False
      then show ?thesis using Cons.prems Cons.IH Some by (simp add: kv)
    next
      case True
      obtain task store1 where lt: "loadTexture env val JUndefined store = (task, store1)"
        by (cases "loadTexture env val JUndefined store")
      from loadTexture_fresh [OF lt] have s1: "store1 = store @ [textureFor env val]" by simp
      have "configure env cfg (m, js @ [\<lparr>jkey = key, jtask = task, reacted = False\<rparr>], store1)
          = (m', js', store')"
        using Cons.prems Some True by (simp add: kv lt)
      from Cons.IH [OF this] show ?thesis by (auto simp: s1)
    qed
  qed
qed

lemma textureKey_setUniform [simp]: "textureKey (setUniform k v m) key val = textureKey m key val"
  by (cases "declared m key") (auto simp: textureKey_def declared_setUniform)

lemma configure_step:
  "configure env ((key, val) # cfg) (m, js, store) =
     (if textureKey m key val
      then configure env cfg
             (m, js @ [\<lparr>jkey = key, jtask = fst (loadTexture env val JUndefined store),
                        reacted = False\<rparr>], store @ [textureFor env val])
      else if declared m key = None then configure env cfg (m, js, store)
      else configure env cfg (setUniform key val m, js, store))"
proof (cases "loadTexture env val JUndefined store")
  case (Pair task store1)
  from loadTexture_fresh [OF Pair] have "store1 = store @ [textureFor env val]" by simp
  then show ?thesis
    by (cases "map_of (uniforms m) key") (auto simp: textureKey_def declared_def Pair)
qed

lemma loadTexture_freshJob:
  "freshJob env (store @ [textureFor env val]) key val
     \<lparr>jkey = key, jtask = fst (loadTexture env val JUndefined store), reacted = False\<rparr>"
proof (cases "loadTexture env val JUndefined store")
  case (Pair task store1)
  from loadTexture_fresh [OF Pair] show ?thesis
    by (simp add: freshJob_def Pair)
qed

lemma configure_declared:
  assumes "distinct (map fst cfg)" "configure env cfg (m, js, store) = (m', js', store')"
  shows "declared m' k =
     (case map_of cfg k of
        None \<Rightarrow> declared m k
      | Some v \<Rightarrow> if textureKey m k v then declared m k
                  else map_option (\<lambda>u. u\<lparr>uvalue := v\<rparr>) (declared m k))"
  using assms
proof (induction cfg arbitrary: m js store)
  case Nil
  then show ?case by simp
next
  case (Cons kv cfg)
  obtain key val where kv: "kv = (key, val)" by (cases kv)
  from Cons.prems(1) have d: "distinct (map fst cfg)" and fresh: "map_of cfg key = None"
    by (auto simp: kv map_of_eq_None_iff)
  note run = Cons.prems(2) [unfolded kv configure_step]
  show ?case
  proof (cases "textureKey m key val")
    case True
    with run have "configure env cfg
             (m, js @ [\<lparr>jkey = key, jtask = fst (loadTexture env val JUndefined store),
                        reacted = False\<rparr>], store @ [textureFor env val]) = (m', js', store')"
      by simp
    from Cons.IH [OF d this] show ?thesis
      using True fresh by (auto simp: kv)
  next
    case False
    show ?thesis
    proof (cases "declared m key")
      case None
      with run False have "configure env cfg (m, js, store) = (m', js', store')" by simp
      from Cons.IH [OF d this] show ?thesis
        using False fresh None by (auto simp: kv)
    next
      case (Some u)
      with run False have "configure env cfg (setUniform key val m, js, store) = (m', js', store')"
        by simp
      from Cons.IH [OF d this] show ?thesis
        using False fresh Some by (auto simp: kv declared_setUniform split: option.splits)
    qed
  qed
qed

lemma configure_jobs:
  assumes "configure env cfg (m, js, store) = (m', js', store')"
  shows "\<exists>new. js' = js @ new
           \<and> (\<forall>j \<in> set new. \<exists>v. (jkey j, v) \<in> set cfg \<and> textureKey m (jkey j) v
                                 \<and> freshJob env store' (jkey j) v j)
           \<and> (distinct (map fst cfg) \<longrightarrow> distinct (map jkey new))
           \<and> (\<forall>(k, v) \<in> set cfg. textureKey m k v \<longrightarrow> (\<exists>j \<in> set new. jkey j = k))"
  using assms
proof (induction cfg arbitrary: m js store)
  case Nil
  then show ?case by simp
next
  case (Cons kv cfg)
  obtain key val where kv: "kv = (key, val)" by (cases kv)
  note run = Cons.prems [unfolded kv configure_step]
  show ?case
  proof (cases "textureKey m key val")
    case True
    let ?j = "\<lparr>jkey = key, jtask = fst (loadTexture env val JUndefined store), reacted = False\<rparr>"
    from run True have c: "configure env cfg (m, js @ [?j], store @ [textureFor env val]) = (m', js', store')"
      by simp
    from Cons.IH [OF c] obtain new where new: "js' = (js @ [?j]) @ new"
      and fr: "\<forall>j \<in> set new. \<exists>v. (jkey j, v) \<in> set cfg \<and> textureKey m (jkey j) v
                                 \<and> freshJob env store' (jkey j) v j"
      and di: "distinct (map fst cfg) \<longrightarrow> distinct (map jkey new)"
      and ex: "\<forall>(k, v) \<in> set cfg. textureKey m k v \<longrightarrow> (\<exists>j \<in> set new. jkey j = k)"
      by blast
    from configure_grows [OF c] obtain extra where "store' = (store @ [textureFor env val]) @ extra"
      by blast
    then have j: "freshJob env store' key val ?j"
      using freshJob_extend [OF loadTexture_freshJob [of env store val key], of extra] by simp
    have keys: "jkey ` set new \<subseteq> fst ` set cfg"
      using fr by force
    have "js' = js @ (?j # new)" using new by simp
    moreover have "\<forall>j \<in> set (?j # new). \<exists>v. (jkey j, v) \<in> set (kv # cfg) \<and> textureKey m (jkey j) v
                                 \<and> freshJob env store' (jkey j) v j"
      using fr j True by (auto simp: kv)
    moreover have "distinct (map fst (kv # cfg)) \<longrightarrow> distinct (map jkey (?j # new))"
      using di keys by (auto simp: kv)
    moreover have "\<forall>(k, v) \<in> set (kv # cfg). textureKey m k v \<longrightarrow> (\<exists>j \<in> set (?j # new). jkey j = k)"
      using ex by (auto simp: kv)
    ultimately show ?thesis by blast
  next
    case False
    have "\<exists>m1. configure env cfg (m1, js, store) = (m', js', store')
            \<and> (\<forall>k v. textureKey m1 k v = textureKey m k v)"
    proof (cases "declared m key")
      case None
      with run False show ?thesis by auto
    next
      case (Some u)
      with run False have "configure env cfg (setUniform key val m, js, store) = (m', js', store')"
        by simp
      then show ?thesis by (intro exI [of _ "setUniform key val m"]) simp
    qed
    then obtain m1 where c: "configure env cfg (m1, js, store) = (m', js', store')"
      and same: "\<And>k v. textureKey m1 k v = textureKey m k v"
      by blast
    from Cons.IH [OF c] obtain new where new: "js' = js @ new"
      and fr: "\<forall>j \<in> set new. \<exists>v. (jkey j, v) \<in> set cfg \<and> textureKey m (jkey j) v
                                 \<and> freshJob env store' (jkey j) v j"
      and di: "distinct (map fst cfg) \<longrightarrow> distinct (map jkey new)"
      and ex: "\<forall>(k, v) \<in> set cfg. textureKey m k v \<longrightarrow> (\<exists>j \<in> set new. jkey j = k)"
      unfolding same by blast
    have "\<forall>j \<in> set new. \<exists>v. (jkey j, v) \<in> set (kv # cfg) \<and> textureKey m (jkey j) v
                                 \<and> freshJob env store' (jkey j) v j"
      using fr by fastforce
    moreover have "distinct (map fst (kv # cfg)) \<longrightarrow> distinct (map jkey new)"
      using di by simp
    moreover have "\<forall>(k, v) \<in> set (kv # cfg). textureKey m k v \<longrightarrow> (\<exists>j \<in> set new. jkey j = k)"
      using ex False by (auto simp: kv)
    ultimately show ?thesis using new by blast
  qed
qed

lemma react_Cons:
  "react (j # js) m =
     (if \<not> reacted j \<and> fulfilledWith j \<noteq> None
      then (fst (react js (setUniform (jkey j) (JTexture (the (fulfilledWith j))) m)),
            j\<lparr>reacted := True\<rparr> # snd (react js (setUniform (jkey j) (JTexture (the (fulfilledWith j))) m)))
      else (fst (react js m), j # snd (react js m)))"
  by (cases "promise (jtask j)"; cases "reacted j") (simp_all add: fulfilledWith_def split_beta)

lemma react_jobs: "snd (react js m) = map react1 js"
  by (induction js arbitrary: m) (simp_all add: react_Cons react1_def del: react.simps(2))

lemma jkey_react1 [simp]: "jkey (react1 j) = jkey j"
  by (simp add: react1_def)

lemma react_other:
  "k \<notin> jkey ` set js \<Longrightarrow> declared (fst (react js m)) k = declared m k"
  by (induction js arbitrary: m) (simp_all add: react_Cons declared_setUniform del: react.simps(2))

lemma react_job:
  "distinct (map jkey js) \<Longrightarrow> j \<in> set js \<Longrightarrow>
     declared (fst (react js m)) (jkey j) =
       (if \<not> reacted j \<and> fulfilledWith j \<noteq> None
        then map_option (\<lambda>u. u\<lparr>uvalue := JTexture (the (fulfilledWith j))\<rparr>) (declared m (jkey j))
        else declared m (jkey j))"
proof (induction js arbitrary: m)
  case Nil
  then show ?case by simp
next
  case (Cons i js)
  show ?case
  proof (cases "j = i")
    case True
    from Cons.prems(1) have "jkey i \<notin> jkey ` set js" by simp
    then show ?thesis
      by (simp add: True react_Cons react_other declared_setUniform del: react.simps(2))
  next
    case False
    with Cons.prems have j: "j \<in> set js" and d: "distinct (map jkey js)"
      and ni: "jkey i \<notin> jkey ` set js"
      by auto
    from j have "jkey j \<in> jkey ` set js" by (rule imageI)
    with ni have ne: "jkey j \<noteq> jkey i" by auto
    show ?thesis
      using ne by (simp add: react_Cons Cons.IH [OF d j] declared_setUniform del: react.simps(2))
  qed
qed

lemma onTexEvent_fulfilled:
  "\<forall>x. promise task = Fulfilled x \<longrightarrow> x = texture task \<Longrightarrow>
     \<forall>x. promise (onTexEvent ev task) = Fulfilled x \<longrightarrow> x = texture task"
  by (cases ev; cases "promise task") auto

lemma onTexEvent_keeps:
  "promise task = Fulfilled x \<Longrightarrow> promise (onTexEvent ev task) = Fulfilled x"
  by (simp add: onTexEvent_settled)

lemma microtasks_eq: "microtasks s = \<lparr>mat = fst (react (jobs s) (mat s)), jobs = map react1 (jobs s)\<rparr>"
  by (simp add: microtasks_def split_beta react_jobs)

lemma jkeys_react1 [simp]: "map jkey (map react1 js) = map jkey js"
  by simp

lemma microtasks_tracks:
  assumes d: "distinct (map jkey (jobs s))" and j: "j \<in> set (jobs s)" and k: "jkey j = key"
    and f: "\<forall>x. promise (jtask j) = Fulfilled x \<longrightarrow> x = texture (jtask j)"
    and r: "reacted j \<longrightarrow> promise (jtask j) = Fulfilled (texture (jtask j))"
    and u: "declared (mat s) key =
              Some (if reacted j then u\<lparr>uvalue := JTexture (texture (jtask j))\<rparr> else u)"
  shows "tracks (microtasks s) key u (jtask j)"
proof -
  let ?t = "texture (jtask j)"
  have ff: "fulfilledWith j \<noteq> None \<longleftrightarrow> promise (jtask j) = Fulfilled ?t"
    using f by (cases "promise (jtask j)") (simp_all add: fulfilledWith_def)
  have the_t: "promise (jtask j) = Fulfilled ?t \<Longrightarrow> the (fulfilledWith j) = ?t"
    by (simp add: fulfilledWith_def)
  have 1: "distinct (map jkey (jobs (microtasks s)))"
    using d by (simp add: microtasks_eq del: map_map)
  have 2: "react1 j \<in> set (jobs (microtasks s))"
    using j by (simp add: microtasks_eq)
  have 3: "jkey (react1 j) = key" "jtask (react1 j) = jtask j"
    using k by (simp_all add: react1_def)
  have 4: "reacted (react1 j) \<longleftrightarrow> promise (jtask j) = Fulfilled ?t"
    using r ff by (auto simp: react1_def)
  have "declared (mat (microtasks s)) key =
       (if \<not> reacted j \<and> fulfilledWith j \<noteq> None
        then map_option (\<lambda>u. u\<lparr>uvalue := JTexture (the (fulfilledWith j))\<rparr>) (declared (mat s) key)
        else declared (mat s) key)"
    using react_job [OF d j, of "mat s"] by (simp add: microtasks_eq k)
  then have 5: "declared (mat (microtasks s)) key =
      Some (if promise (jtask j) = Fulfilled ?t then u\<lparr>uvalue := JTexture ?t\<rparr> else u)"
    using u r ff the_t by auto
  show ?thesis
    unfolding tracks_def using 1 2 3 4 5 f by blast
qed

lemma materialEvent_tracks:
  assumes "tracks s key u task"
  shows "tracks (materialEvent ev s) key u (onTexEvent ev task)"
proof -
  from assms obtain j where d: "distinct (map jkey (jobs s))" and j: "j \<in> set (jobs s)"
    and k: "jkey j = key" and t: "jtask j = task"
    and r: "reacted j \<longleftrightarrow> promise task = Fulfilled (texture task)"
    and f: "\<forall>x. promise task = Fulfilled x \<longrightarrow> x = texture task"
    and u: "declared (mat s) key =
         Some (if promise task = Fulfilled (texture task)
               then u\<lparr>uvalue := JTexture (texture task)\<rparr> else u)"
    unfolding tracks_def by blast
  let ?upd = "\<lambda>j. j\<lparr>jtask := onTexEvent ev (jtask j)\<rparr>"
  let ?s1 = "s\<lparr>jobs := map ?upd (jobs s)\<rparr>"
  have d1: "distinct (map jkey (jobs ?s1))"
    using d by (simp add: comp_def)
  have j1: "?upd j \<in> set (jobs ?s1)"
    using j by simp
  have k1: "jkey (?upd j) = key" using k by simp
  have t1: "jtask (?upd j) = onTexEvent ev task" using t by simp
  have f1: "\<forall>x. promise (jtask (?upd j)) = Fulfilled x \<longrightarrow> x = texture (jtask (?upd j))"
    using onTexEvent_fulfilled [OF f, of ev] by (simp add: t)
  have r1: "reacted (?upd j) \<longrightarrow> promise (jtask (?upd j)) = Fulfilled (texture (jtask (?upd j)))"
    using r onTexEvent_keeps [of task "texture task" ev] by (simp add: t)
  have u1: "declared (mat ?s1) key =
              Some (if reacted (?upd j) then u\<lparr>uvalue := JTexture (texture (jtask (?upd j)))\<rparr> else u)"
    using u r by (simp add: t)
  have "tracks (microtasks ?s1) key u (jtask (?upd j))"
    by (rule microtasks_tracks [OF d1 j1 k1 f1 r1 u1])
  then show ?thesis
    by (simp add: materialEvent_def t)
qed

lemma afterEvents_tracks:
  assumes d: "distinct (map jkey (jobs s))" and j: "j \<in> set (jobs s)" and k: "jkey j = key"
    and f: "\<forall>x. promise (jtask j) = Fulfilled x \<longrightarrow> x = texture (jtask j)"
    and r: "\<not> reacted j"
    and u: "declared (mat s) key = Some u"
  shows "tracks (afterEvents evs s) key u (fold onTexEvent evs (jtask j))"
proof -
  have start: "tracks (microtasks s) key u (jtask j)"
    by (rule microtasks_tracks [OF d j k f]) (simp_all add: r u)
  have "tracks s' key u task \<Longrightarrow> tracks (fold materialEvent evs s') key u (fold onTexEvent evs task)"
    for s' task
    by (induction evs arbitrary: s' task) (simp_all add: materialEvent_tracks)
  from this [OF start] show ?thesis
    by (simp add: afterEvents_def)
qed

lemma microtasks_other:
  "key \<notin> jkey ` set (jobs s) \<Longrightarrow>
     declared (mat (microtasks s)) key = declared (mat s) key
     \<and> key \<notin> jkey ` set (jobs (microtasks s))"
  using react_other [of key "jobs s" "mat s"]
  by (simp add: microtasks_eq image_image)

lemma materialEvent_other:
  assumes "key \<notin> jkey ` set (jobs s)"
  shows "declared (mat (materialEvent ev s)) key = declared (mat s) key
     \<and> key \<notin> jkey ` set (jobs (materialEvent ev s))"
proof -
  let ?s1 = "s\<lparr>jobs := map (\<lambda>j. j\<lparr>jtask := onTexEvent ev (jtask j)\<rparr>) (jobs s)\<rparr>"
  have "key \<notin> jkey ` set (jobs ?s1)"
    using assms by (simp add: image_image)
  from microtasks_other [OF this] show ?thesis
    by (simp add: materialEvent_def)
qed

lemma afterEvents_other:
  assumes "key \<notin> jkey ` set (jobs s)"
  shows "declared (mat (afterEvents evs s)) key = declared (mat s) key"
proof -
  have "key \<notin> jkey ` set (jobs s') \<Longrightarrow>
      declared (mat (fold materialEvent evs s')) key = declared (mat s') key" for s'
  proof (induction evs arbitrary: s')
    case Nil
    then show ?case by simp
  next
    case (Cons ev evs)
    from materialEvent_other [OF Cons.prems, of ev] Cons.IH [of "materialEvent ev s'"]
    show ?case by simp
  qed
  from this [of "microtasks s"] microtasks_other [OF assms] show ?thesis
    by (simp add: afterEvents_def)
qed

lemma verdict_fulfilled:
  "verdict t evs = Fulfilled t \<longleftrightarrow> firstEvent t evs = Some (TexSuccess t)"
proof (cases "firstEvent t evs")
  case None
  then show ?thesis by (simp add: verdict_def)
next
  case (Some e)
  then have "eventTexture e = t"
    by (auto simp: firstEvent_def find_Some_iff)
  then show ?thesis
    using Some by (cases e) (simp_all add: verdict_def)
qed

lemma createMaterial_eq:
  "createMaterial env matConfig store =
     (case configure env (withShader matConfig) (newMaterial env (shaderOf matConfig), [], store) of
        (m, js, store') \<Rightarrow>
          (\<lparr>mat = m, jobs = js\<rparr>,
           if truthy (getProp (withShader matConfig) ''transparent'')
           then AList.update ''transparent'' (JBool True)
                  (AList.update ''depthMask'' (JBool False) (withShader matConfig))
           else withShader matConfig,
           store'))"
proof -
  have "getProp (withShader matConfig) ''shader'' = shaderOf matConfig"
    by (simp add: withShader_def getProp_update)
  then show ?thesis
    by (simp add: createMaterial_def Let_def withShader_def shaderOf_def)
qed

lemma job_promise_after:
  assumes "freshJob env store key val j"
  shows "promise (fold onTexEvent evs (jtask j)) = Fulfilled (texture (jtask j)) \<longleftrightarrow>
           isRenderable env (textureFor env val)
           \<or> firstEvent (texture (jtask j)) evs = Some (TexSuccess (texture (jtask j)))"
proof (cases "isRenderable env (textureFor env val)")
  case True
  with assms have "promise (jtask j) = Fulfilled (texture (jtask j))"
    by (simp add: freshJob_def)
  then show ?thesis
    using True fold_settled [of "jtask j" evs] by simp
next
  case False
  with assms have "listening (jtask j)" "promise (jtask j) = Pending"
    by (simp_all add: freshJob_def)
  from fold_pending [OF this, of evs] show ?thesis
    using False by (simp add: verdict_fulfilled)
qed

lemma tracks_declared:
  "tracks s key u task \<Longrightarrow>
     declared (mat s) key =
         Some (if promise task = Fulfilled (texture task)
               then u\<lparr>uvalue := JTexture (texture task)\<rparr> else u)"
  unfolding tracks_def by (elim conjE)

text \<open>
  C7: \<^verbatim>\<open>createMaterial\<close> returns a material for every configuration (its keys are
  distinct, as an object's are). For an entry of the configuration whose key names a
  uniform the shader declares: if the uniform is not of type \<^verbatim>\<open>'t'\<close> and the value is
  not image-like, the uniform holds the value when the call returns, and keeps it; else
  the uniform still holds its default when the call returns, a texture built from the
  value is in the store, and after any events the uniform holds that texture if the
  texture was renderable at once or its first event is a success, and its default
  otherwise, so also after a failed load.
\<close>

theorem createMaterial_best_effort:
  assumes cfg: "\<forall>c. matConfig = Some c \<longrightarrow> distinct (map fst c)"
    and run: "createMaterial env matConfig store = (st, cfg', store')"
    and entry: "(key, val) \<in> set (withShader matConfig)"
    and decl: "map_of (uniforms (newMaterial env (shaderOf matConfig))) key = Some u"
  shows "(utype u \<noteq> ''t'' \<and> \<not> isImageLikeElement val \<longrightarrow>
            (\<forall>evs. map_of (uniforms (mat st)) key = Some (u\<lparr>uvalue := val\<rparr>)
                 \<and> map_of (uniforms (mat (afterEvents evs st))) key = Some (u\<lparr>uvalue := val\<rparr>)))
       \<and> (utype u = ''t'' \<or> isImageLikeElement val \<longrightarrow>
            map_of (uniforms (mat st)) key = Some u
            \<and> (\<exists>t < length store'. store' ! t = textureFor env val
                 \<and> (\<forall>evs. map_of (uniforms (mat (afterEvents evs st))) key =
                       Some (if isRenderable env (textureFor env val)
                                \<or> firstEvent t evs = Some (TexSuccess t)
                             then u\<lparr>uvalue := JTexture t\<rparr> else u))))"
proof -
  let ?cfg = "withShader matConfig"
  let ?m0 = "newMaterial env (shaderOf matConfig)"
  have dist: "distinct (map fst ?cfg)"
    using cfg by (cases matConfig) (simp_all add: withShader_def distinct_update)
  then have look: "map_of ?cfg key = Some val"
    using entry by simp
  have unique: "v = val" if "(key, v) \<in> set ?cfg" for v
    using that dist look by simp
  have d0: "declared ?m0 key = Some u"
    using decl by (simp add: declared_def)
  have kind: "textureKey ?m0 key val \<longleftrightarrow> utype u = ''t'' \<or> isImageLikeElement val"
    by (simp add: textureKey_def d0)
  obtain m js where conf: "configure env ?cfg (?m0, [], store) = (m, js, store')"
    and st: "st = \<lparr>mat = m, jobs = js\<rparr>"
    using run unfolding createMaterial_eq
    by (cases "configure env ?cfg (?m0, [], store)") auto
  have at_return: "declared m key =
      (if textureKey ?m0 key val then Some u else Some (u\<lparr>uvalue := val\<rparr>))"
    using configure_declared [OF dist conf, of key] by (simp add: look d0)
  from configure_jobs [OF conf] obtain new where "js = [] @ new"
    and fr0: "\<forall>j \<in> set new. \<exists>v. (jkey j, v) \<in> set ?cfg \<and> textureKey ?m0 (jkey j) v
                                 \<and> freshJob env store' (jkey j) v j"
    and dj0: "distinct (map fst ?cfg) \<longrightarrow> distinct (map jkey new)"
    and ex0: "\<forall>(k, v) \<in> set ?cfg. textureKey ?m0 k v \<longrightarrow> (\<exists>j \<in> set new. jkey j = k)"
    by blast
  then have new: "new = js" by simp
  note fr = fr0 [unfolded new] and ex = ex0 [unfolded new]
  have dj: "distinct (map jkey js)"
    using dj0 dist unfolding new by (rule mp)
  have plain: "map_of (uniforms (mat st)) key = Some (u\<lparr>uvalue := val\<rparr>)
       \<and> map_of (uniforms (mat (afterEvents evs st))) key = Some (u\<lparr>uvalue := val\<rparr>)"
    if nk: "\<not> textureKey ?m0 key val" for evs
  proof -
    have "key \<notin> jkey ` set (jobs st)"
    proof
      assume "key \<in> jkey ` set (jobs st)"
      then obtain j where "j \<in> set js" "jkey j = key" by (auto simp: st)
      with fr obtain v where "(key, v) \<in> set ?cfg" "textureKey ?m0 key v" by blast
      with unique nk show False by blast
    qed
    from afterEvents_other [OF this, of evs] at_return nk show ?thesis
      by (simp add: st declared_def)
  qed
  have tex: "map_of (uniforms (mat st)) key = Some u
            \<and> (\<exists>t < length store'. store' ! t = textureFor env val
                 \<and> (\<forall>evs. map_of (uniforms (mat (afterEvents evs st))) key =
                       Some (if isRenderable env (textureFor env val)
                                \<or> firstEvent t evs = Some (TexSuccess t)
                             then u\<lparr>uvalue := JTexture t\<rparr> else u)))"
    if tk: "textureKey ?m0 key val"
  proof -
    from ex entry
    have "case (key, val) of (k, v) \<Rightarrow> textureKey ?m0 k v \<longrightarrow> (\<exists>j \<in> set js. jkey j = k)"
      by (rule bspec)
    then have "textureKey ?m0 key val \<longrightarrow> (\<exists>j \<in> set js. jkey j = key)"
      by simp
    with tk obtain j where j: "j \<in> set js" and k: "jkey j = key" by blast
    with fr obtain v where "(key, v) \<in> set ?cfg" and "freshJob env store' key v j" by blast
    with unique have fj: "freshJob env store' key val j" by blast
    let ?t = "texture (jtask j)"
    from fj have t: "?t < length store'" "store' ! ?t = textureFor env val"
      and nr: "\<not> reacted j"
      by (simp_all add: freshJob_def)
    from fj have f: "\<forall>x. promise (jtask j) = Fulfilled x \<longrightarrow> x = ?t"
      by (cases "isRenderable env (textureFor env val)") (simp_all add: freshJob_def)
    have ret: "declared (mat st) key = Some u"
      using at_return tk by (simp add: st)
    have "map_of (uniforms (mat (afterEvents evs st))) key =
                       Some (if isRenderable env (textureFor env val)
                                \<or> firstEvent ?t evs = Some (TexSuccess ?t)
                             then u\<lparr>uvalue := JTexture ?t\<rparr> else u)" for evs
    proof -
      have "tracks (afterEvents evs st) key u (fold onTexEvent evs (jtask j))"
        by (rule afterEvents_tracks [OF _ _ k f nr ret]) (simp_all add: st dj j)
      then have "declared (mat (afterEvents evs st)) key =
          Some (if promise (fold onTexEvent evs (jtask j)) = Fulfilled ?t
                then u\<lparr>uvalue := JTexture ?t\<rparr> else u)"
        using tracks_declared [of "afterEvents evs st" key u "fold onTexEvent evs (jtask j)"]
        by simp
      then show ?thesis
        unfolding job_promise_after [OF fj] by (simp add: declared_def)
    qed
    then have "\<exists>t < length store'. store' ! t = textureFor env val
                 \<and> (\<forall>evs. map_of (uniforms (mat (afterEvents evs st))) key =
                       Some (if isRenderable env (textureFor env val)
                                \<or> firstEvent t evs = Some (TexSuccess t)
                             then u\<lparr>uvalue := JTexture t\<rparr> else u))"
      using t by (intro exI [of _ ?t]) blast
    moreover have "map_of (uniforms (mat st)) key = Some u"
      using ret by (simp add: declared_def)
    ultimately show ?thesis by (rule conjI [rotated])
  qed
  from plain tex show ?thesis
    unfolding kind by blast
qed

theorem createMaterial_best_effort_witness:
  "map_of (uniforms (mat (fst (createMaterial standardEnv (Some exampleConfig) [])))) ''alpha''
     = Some \<lparr>utype = ''f'', uvalue = JNum (1 / 2)\<rparr>
   \<and> map_of (uniforms (mat (fst (createMaterial standardEnv (Some exampleConfig) [])))) ''diffuseMap''
     = Some \<lparr>utype = ''t'', uvalue = JNull\<rparr>
   \<and> map_of (uniforms (mat (afterEvents [TexError 0]
         (fst (createMaterial standardEnv (Some exampleConfig) []))))) ''diffuseMap''
     = Some \<lparr>utype = ''t'', uvalue = JNull\<rparr>
   \<and> map_of (uniforms (mat (afterEvents [TexSuccess 0]
         (fst (createMaterial standardEnv (Some exampleConfig) []))))) ''diffuseMap''
     = Some \<lparr>utype = ''t'', uvalue = JTexture 0\<rparr>"
proof -
  define st where "st = fst (createMaterial standardEnv (Some exampleConfig) [])"
  define cfg' where "cfg' = fst (snd (createMaterial standardEnv (Some exampleConfig) []))"
  define store' where "store' = snd (snd (createMaterial standardEnv (Some exampleConfig) []))"
  have run: "createMaterial standardEnv (Some exampleConfig) [] = (st, cfg', store')"
    by (simp add: st_def cfg'_def store'_def)
  have keys: "\<forall>c. Some exampleConfig = Some c \<longrightarrow> distinct (map fst c)"
    by (simp add: exampleConfig_def)
  have sh: "shaderOf (Some exampleConfig) = JStr ''clay.standard''"
    by (simp add: shaderOf_def exampleConfig_def getProp_def)
  have ws: "withShader (Some exampleConfig) = exampleConfig @ [(''shader'', JStr ''clay.standard'')]"
    by (simp add: withShader_def sh) (simp add: exampleConfig_def)
  have e1: "(''alpha'', JNum (1 / 2)) \<in> set (withShader (Some exampleConfig))"
    and e2: "(''diffuseMap'', JStr ''a.png'') \<in> set (withShader (Some exampleConfig))"
    unfolding ws by (simp_all add: exampleConfig_def)
  have d1: "map_of (uniforms (newMaterial standardEnv (shaderOf (Some exampleConfig)))) ''alpha''
              = Some \<lparr>utype = ''f'', uvalue = JNum 1\<rparr>"
    and d2: "map_of (uniforms (newMaterial standardEnv (shaderOf (Some exampleConfig)))) ''diffuseMap''
              = Some \<lparr>utype = ''t'', uvalue = JNull\<rparr>"
    by (simp_all add: standardEnv_def)
  have tf: "textureFor standardEnv (JStr ''a.png'')
      = \<lparr>topts = JUndefined, image_src = JUndefined, dynamic = False, loading = Some ''a.png''\<rparr>"
    by (simp add: textureFor_def loadTextureSync_def standardEnv_def load_def)
  have store: "store' =
      [\<lparr>topts = JUndefined, image_src = JUndefined, dynamic = False, loading = Some ''a.png''\<rparr>,
       \<lparr>topts = JUndefined, image_src = JCanvas 3, dynamic = False, loading = None\<rparr>]"
    by (simp add: store'_def createMaterial_def exampleConfig_def standardEnv_def getProp_def
        setUniform_def loadTexture_def loadTextureSync_def load_def)
  have nr: "\<not> isRenderable standardEnv (textureFor standardEnv (JStr ''a.png''))"
    by (simp add: tf) (simp add: standardEnv_def)
  from createMaterial_best_effort [OF keys run e1 d1]
  have alpha: "map_of (uniforms (mat st)) ''alpha'' = Some \<lparr>utype = ''f'', uvalue = JNum (1 / 2)\<rparr>"
    by simp
  from createMaterial_best_effort [OF keys run e2 d2]
  have ret: "map_of (uniforms (mat st)) ''diffuseMap'' = Some \<lparr>utype = ''t'', uvalue = JNull\<rparr>"
    and "\<exists>t < length store'. store' ! t = textureFor standardEnv (JStr ''a.png'')
           \<and> (\<forall>evs. map_of (uniforms (mat (afterEvents evs st))) ''diffuseMap'' =
                 Some (if isRenderable standardEnv (textureFor standardEnv (JStr ''a.png''))
                          \<or> firstEvent t evs = Some (TexSuccess t)
                       then \<lparr>utype = ''t'', uvalue = JNull\<rparr>\<lparr>uvalue := JTexture t\<rparr>
                       else \<lparr>utype = ''t'', uvalue = JNull\<rparr>))"
    by simp_all
  then obtain t where t: "t < length store'" "store' ! t = textureFor standardEnv (JStr ''a.png'')"
    and later: "\<And>evs. map_of (uniforms (mat (afterEvents evs st))) ''diffuseMap'' =
                 Some (if isRenderable standardEnv (textureFor standardEnv (JStr ''a.png''))
                          \<or> firstEvent t evs = Some (TexSuccess t)
                       then \<lparr>utype = ''t'', uvalue = JNull\<rparr>\<lparr>uvalue := JTexture t\<rparr>
                       else \<lparr>utype = ''t'', uvalue = JNull\<rparr>)"
    by blast
  from t have "t = 0 \<or> t = 1" by (auto simp: store)
  with t(2) have t0: "t = 0" by (auto simp: store tf)
  have "map_of (uniforms (mat (afterEvents [TexError 0] st))) ''diffuseMap''
      = Some \<lparr>utype = ''t'', uvalue = JNull\<rparr>"
    unfolding later using nr by (simp add: t0 firstEvent_def)
  moreover have "map_of (uniforms (mat (afterEvents [TexSuccess 0] st))) ''diffuseMap''
      = Some \<lparr>utype = ''t'', uvalue = JTexture 0\<rparr>"
    unfolding later using nr by (simp add: t0 firstEvent_def)
  ultimately show ?thesis
    using alpha ret unfolding st_def by blast
qed

section \<open>Model loads\<close>

text \<open>
  C10: \<^verbatim>\<open>loadModel\<close> with a url that is not a string throws \<^verbatim>\<open>Error('Invalid URL.')\<close>
  at the call and returns no promise; with a string it returns a pending promise, which
  the loader's error callback rejects.
\<close>

theorem loadModel_invalid_url_throws:
  "(\<not> isString url \<longrightarrow> loadModel url opts = Inl (Error ''Invalid URL.''))
   \<and> (isString url \<longrightarrow>
        (\<exists>st. loadModel url opts = Inr st \<and> outcome st = Pending
              \<and> outcome (onModelEvent LoaderError st) = Rejected))"
  by (simp add: loadModel_def)

theorem loadModel_invalid_url_throws_witness:
  "loadModel (JNum 3) None = Inl (Error ''Invalid URL.'')
   \<and> (\<exists>st. loadModel (JStr ''model.gltf'') None = Inr st \<and> outcome st = Pending
            \<and> outcome (onModelEvent LoaderError st) = Rejected)"
proof -
  have a: "\<not> isString (JNum 3)" and b: "isString (JStr ''model.gltf'')"
    by simp_all
  from loadModel_invalid_url_throws [of "JNum 3" None] a
  have "loadModel (JNum 3) None = Inl (Error ''Invalid URL.'')" by blast
  moreover from loadModel_invalid_url_throws [of "JStr ''model.gltf''" None] b
  have "\<exists>st. loadModel (JStr ''model.gltf'') None = Inr st \<and> outcome st = Pending
            \<and> outcome (onModelEvent LoaderError st) = Rejected" by blast
  ultimately show ?thesis by (rule conjI)
qed











lemma resolve_not_Rejected: "p \<noteq> Rejected \<Longrightarrow> resolve v p \<noteq> Rejected"
  by (cases p) simp_all

lemma afterLoad_not_Rejected:
  "outcome st \<noteq> Rejected \<Longrightarrow> outcome (afterLoad result st) \<noteq> Rejected"
  by (simp add: afterLoad_def resolve_not_Rejected)

lemma settleJoins_not_Rejected:
  "outcome st \<noteq> Rejected \<Longrightarrow> outcome (fst (settleJoins js st)) \<noteq> Rejected"
proof (induction js arbitrary: st)
  case Nil
  then show ?case by simp
next
  case (Cons j js)
  have a: "outcome (fst (settleJoins js st)) \<noteq> Rejected"
    by (rule Cons.IH [OF Cons.prems])
  have b: "outcome (fst (settleJoins js (afterLoad (jresult j) st))) \<noteq> Rejected"
    by (rule Cons.IH [OF afterLoad_not_Rejected [OF Cons.prems]])
  show ?case
  proof (cases "joined j")
    case True
    then show ?thesis using a by (simp add: split_beta)
  next
    case False
    then show ?thesis
      using a b by (cases "promiseAll (map snd (parts j))") (simp_all add: split_beta)
  qed
qed

lemma drain_not_Rejected:
  "outcome st \<noteq> Rejected \<Longrightarrow> outcome (drain st) \<noteq> Rejected"
  using settleJoins_not_Rejected [of st "joins st"]
  by (simp add: drain_def split_beta)

lemma onModelEvent_not_Rejected:
  assumes "ev \<noteq> LoaderError" "outcome st \<noteq> Rejected"
  shows "outcome (onModelEvent ev st) \<noteq> Rejected"
proof (cases ev)
  case (LoaderSuccess result ready)
  show ?thesis
    unfolding LoaderSuccess onModelEvent.simps
    by (rule drain_not_Rejected) (simp add: assms(2) afterLoad_not_Rejected)
next
  case LoaderError
  with assms(1) show ?thesis by simp
next
  case (TextureEvent tev)
  show ?thesis
    unfolding TextureEvent onModelEvent.simps
    by (rule drain_not_Rejected) (simp add: assms(2))
qed

lemma modelEvents_not_Rejected:
  "LoaderError \<notin> set evs \<Longrightarrow> outcome st \<noteq> Rejected \<Longrightarrow>
     outcome (modelEvents evs st) \<noteq> Rejected"
  unfolding modelEvents_def
proof (induction evs arbitrary: st)
  case Nil
  then show ?case by simp
next
  case (Cons e evs)
  from Cons.prems have "e \<noteq> LoaderError" "LoaderError \<notin> set evs" by auto
  then show ?case
    using Cons.IH [OF _ onModelEvent_not_Rejected [OF _ Cons.prems(2)]] by simp
qed

lemma texture_event_idle: "joins st = [] \<Longrightarrow> onModelEvent (TextureEvent ev) st = st"
  by (simp add: drain_def)

lemma texture_events_idle:
  "\<forall>e \<in> set evs. \<not> isLoaderEvent e \<Longrightarrow> joins st = [] \<Longrightarrow> modelEvents evs st = st"
  unfolding modelEvents_def
proof (induction evs)
  case Nil
  then show ?case by simp
next
  case (Cons e evs)
  from Cons.prems(1) obtain ev where e: "e = TextureEvent ev"
    by (cases e) auto
  show ?case
    using Cons by (simp add: e texture_event_idle del: onModelEvent.simps)
qed




text \<open>
  C5: for a call of \<^verbatim>\<open>loadModel\<close> that returned a promise, in either insertion policy:
  whatever events arrive, if the loader's error callback is not among them the promise
  is not rejected, texture failures included; and when the loader reports at most once,
  the promise is rejected exactly when that report is the error callback.
\<close>

theorem loadModel_rejects_on_loader_error_only:
  assumes "loadModel url opts = Inr st"
  shows "(LoaderError \<notin> set evs \<longrightarrow> outcome (modelEvents evs st) \<noteq> Rejected)
       \<and> (length (filter isLoaderEvent evs) \<le> 1 \<longrightarrow>
            (outcome (modelEvents evs st) = Rejected \<longleftrightarrow> LoaderError \<in> set evs))"
proof -
  from assms have st: "outcome st = Pending" "joins st = []"
    by (auto simp: loadModel_def split: if_splits)
  have only_if: "outcome (modelEvents evs st) \<noteq> Rejected" if "LoaderError \<notin> set evs"
    using modelEvents_not_Rejected [OF that] st by simp
  have "outcome (modelEvents evs st) = Rejected"
    if once: "length (filter isLoaderEvent evs) \<le> 1" and err: "LoaderError \<in> set evs"
  proof -
    from err obtain pre post where evs: "evs = pre @ LoaderError # post"
      by (auto dest: split_list)
    from once have "filter isLoaderEvent pre = []" "filter isLoaderEvent post = []"
      by (simp_all add: evs)
    then have quiet: "\<forall>e \<in> set pre. \<not> isLoaderEvent e" "\<forall>e \<in> set post. \<not> isLoaderEvent e"
      by (simp_all add: filter_empty_conv)
    have "modelEvents evs st
        = modelEvents post (onModelEvent LoaderError (modelEvents pre st))"
      by (simp add: evs modelEvents_def)
    also have "modelEvents pre st = st"
      by (rule texture_events_idle [OF quiet(1) st(2)])
    also have "modelEvents post (onModelEvent LoaderError st) = onModelEvent LoaderError st"
      by (rule texture_events_idle [OF quiet(2)]) (simp add: st)
    finally show ?thesis by (simp add: st)
  qed
  with only_if show ?thesis by blast
qed

theorem loadModel_rejects_on_loader_error_only_witness:
  "outcome (modelEvents [LoaderSuccess exampleResult [1], TextureEvent (TexError 0),
                         TextureEvent (TexError 2)] waitingLoad) \<noteq> Rejected
   \<and> outcome (modelEvents [TextureEvent (TexError 0), LoaderError] waitingLoad) = Rejected"
proof -
  have call: "loadModel (JStr ''model.gltf'') (Some waitOpts) = Inr waitingLoad"
    by (simp add: loadModel_def waitingLoad_def)
  from loadModel_rejects_on_loader_error_only
         [OF call, of "[LoaderSuccess exampleResult [1], TextureEvent (TexError 0),
                         TextureEvent (TexError 2)]"]
  have "outcome (modelEvents [LoaderSuccess exampleResult [1], TextureEvent (TexError 0),
                         TextureEvent (TexError 2)] waitingLoad) \<noteq> Rejected"
    by simp
  moreover
  from loadModel_rejects_on_loader_error_only
         [OF call, of "[TextureEvent (TexError 0), LoaderError]"]
  have "outcome (modelEvents [TextureEvent (TexError 0), LoaderError] waitingLoad) = Rejected"
    by simp
  ultimately show ?thesis by (rule conjI)
qed

end
